theory Spec2Isabelle
  imports Main "HOL-Library.Word" "HOL-Library.Char_ord" "HOL-Library.List_Lexorder"
    "HOL-Library.AList"
begin

section \<open>mht\_unpack: repacking an MHTML message\<close>

text \<open>
  A shallow embedding of \<^verbatim>\<open>mht_unpack.py\<close>. A Python \<^verbatim>\<open>str\<close> is a \<^typ>\<open>string\<close>:
  the list of its code points, which are below 256 (the header values and MIME types the
  program handles are ASCII). A \<^verbatim>\<open>bytes\<close> object is a list of 8-bit words. The libraries the program
  calls (\<^verbatim>\<open>hashlib\<close>, \<^verbatim>\<open>base64\<close>, \<^verbatim>\<open>urllib.parse\<close>, \<^verbatim>\<open>mimetypes\<close>, \<^verbatim>\<open>magic\<close>,
  \<^verbatim>\<open>bs4\<close>) are parameters of the model, collected in the record \<open>env\<close>: every theorem
  holds for each implementation of them. Exceptions are values of type \<open>error\<close>;
  the module-level dictionary \<^verbatim>\<open>common_types\<close>, the standard output and the working
  directory are the fields of the record \<open>state\<close>, passed through every call. The
  working directory can be written: \<^verbatim>\<open>open\<close> does not fail.
\<close>

subsection \<open>Values\<close>

type_synonym bytes = "8 word list"

datatype error = NameError | TypeError | ValueError

text \<open>What \<^verbatim>\<open>part.get_payload(decode=True)\<close> gives: bytes, \<^verbatim>\<open>None\<close> for a multipart
  container; \<^verbatim>\<open>render\<close> also tests for a \<^verbatim>\<open>str\<close>.\<close>

datatype data = PBytes bytes | PStr string | PNone

text \<open>A message part of the \<^verbatim>\<open>email\<close> package, as far as the program reads it.\<close>

record part =
  get_content_type :: "string option"
  get_payload :: data
  content_location :: "string option"
  content_base :: "string option"
  content_id :: "string option"
  start_param :: "string option"

text \<open>A \<^verbatim>\<open>bs4.Tag\<close>: its name and its attribute dictionary, in insertion order.\<close>

record tag =
  name :: string
  attrs :: "(string \<times> string) list"

text \<open>The nodes of a parsed document: a tag with its contents, or a string. A document
  is the list of its top-level nodes.\<close>

datatype node = Tag tag "node list" | NavigableString string

text \<open>The result of \<^verbatim>\<open>urllib.parse.urlsplit\<close>: the two components the program reads.\<close>

record split_result =
  scheme :: string
  path :: string

text \<open>The arguments \<^verbatim>\<open>urljoin\<close> receives in this program: a \<^verbatim>\<open>str\<close>, or the \<^verbatim>\<open>Tag\<close>
  of a \<^verbatim>\<open>base\<close> element.\<close>

datatype pyval = PyStr string | PyTag tag

record env =
  magic_obj :: "(data \<Rightarrow> string option) option"
  guess_all_extensions :: "string \<Rightarrow> string list"
  sha256 :: "bytes \<Rightarrow> bytes"
  urlsplit :: "string \<Rightarrow> error + split_result"
  urljoin_str :: "string \<Rightarrow> string \<Rightarrow> error + string"
  BeautifulSoup :: "data \<Rightarrow> error + node list"
  encode_doc :: "node list \<Rightarrow> bytes"

text \<open>
  \<open>magic_obj\<close> is \<open>None\<close> when the import of \<^verbatim>\<open>magic\<close> failed; \<open>id_buffer\<close> gives \<open>None\<close>
  when it raises (the program swallows the exception) or returns \<^verbatim>\<open>None\<close>.
  \<open>urljoin_str\<close> is \<^verbatim>\<open>urljoin\<close> on two non-empty \<^verbatim>\<open>str\<close> arguments; it and \<open>urlsplit\<close>
  may raise \<^verbatim>\<open>ValueError\<close>.
\<close>

record state =
  common_types :: "string \<rightharpoonup> string"
  stdout :: "string list"
  files :: "string \<rightharpoonup> bytes"
  opened :: "string list"

text \<open>\<open>files\<close> is the working directory; \<open>opened\<close> lists, in order, the paths the program
  has opened for writing.\<close>

definition common_types_init :: "string \<rightharpoonup> string" where
  "common_types_init =
     [''text/html'' \<mapsto> ''.html'',
      ''text/plain'' \<mapsto> ''.txt'',
      ''application/octet-stream'' \<mapsto> ''.data'',
      ''image/jpeg'' \<mapsto> ''.jpg'']"

definition init_state :: "(string \<rightharpoonup> bytes) \<Rightarrow> state" where
  "init_state fs = \<lparr>common_types = common_types_init, stdout = [], files = fs, opened = []\<rparr>"

subsection \<open>String methods\<close>

text \<open>\<^verbatim>\<open>str.lower\<close> on the code points below 256: the letters \<^verbatim>\<open>A\<close> to \<^verbatim>\<open>Z\<close>, and the
  capital letters from 192 to 222, but for the multiplication sign 215.\<close>

definition lower_char :: "char \<Rightarrow> char" where
  "lower_char c =
     (let n = (of_char c :: nat)
      in if (65 \<le> n \<and> n \<le> 90) \<or> (192 \<le> n \<and> n \<le> 222 \<and> n \<noteq> 215)
         then char_of (n + 32) else c)"

definition lower :: "string \<Rightarrow> string" where
  "lower s = map lower_char s"

text \<open>\<^verbatim>\<open>str.isspace\<close> on the code points below 256.\<close>

definition isspace :: "char \<Rightarrow> bool" where
  "isspace c =
     (let n = (of_char c :: nat)
      in (9 \<le> n \<and> n \<le> 13) \<or> (28 \<le> n \<and> n \<le> 32) \<or> n = 133 \<or> n = 160)"

text \<open>\<^verbatim>\<open>s.strip()\<close> and \<^verbatim>\<open>s.strip(chars)\<close>.\<close>

definition strip_where :: "(char \<Rightarrow> bool) \<Rightarrow> string \<Rightarrow> string" where
  "strip_where P s = rev (dropWhile P (rev (dropWhile P s)))"

definition strip :: "string \<Rightarrow> string" where
  "strip s = strip_where isspace s"

definition strip_chars :: "string \<Rightarrow> string \<Rightarrow> string" where
  "strip_chars chars s = strip_where (\<lambda>c. c \<in> set chars) s"

text \<open>\<^verbatim>\<open>sub in s\<close> on strings.\<close>

fun in_str :: "string \<Rightarrow> string \<Rightarrow> bool" where
  "in_str sub [] = (sub = [])"
| "in_str sub (c # cs) = (take (length sub) (c # cs) = sub \<or> in_str sub cs)"

text \<open>\<^verbatim>\<open>s.encode('utf-8')\<close>: one byte for a code point below 128, two for the others.\<close>

definition utf8_encode :: "string \<Rightarrow> bytes" where
  "utf8_encode s =
     concat (map (\<lambda>c. let n = (of_char c :: nat)
                      in if n < 128 then [of_nat n]
                         else [of_nat (192 + n div 64), of_nat (128 + n mod 64)]) s)"

subsection \<open>\<^verbatim>\<open>base64\<close>\<close>

definition b64_standard :: string where
  "b64_standard = ''ABCDEFGHIJKLMNOPQRSTUVWXYZabcdefghijklmnopqrstuvwxyz0123456789+/''"

definition b64_urlsafe :: string where
  "b64_urlsafe = ''ABCDEFGHIJKLMNOPQRSTUVWXYZabcdefghijklmnopqrstuvwxyz0123456789-_''"

text \<open>Three bytes give four characters; a last group of one or two bytes is padded.\<close>

fun b64 :: "string \<Rightarrow> bytes \<Rightarrow> string" where
  "b64 alphabet [] = []"
| "b64 alphabet [a] =
     (let x = unat a
      in [alphabet ! (x div 4), alphabet ! ((x mod 4) * 16), CHR ''='', CHR ''=''])"
| "b64 alphabet [a, b] =
     (let x = unat a; y = unat b
      in [alphabet ! (x div 4), alphabet ! ((x mod 4) * 16 + y div 16),
          alphabet ! ((y mod 16) * 4), CHR ''=''])"
| "b64 alphabet (a # b # c # rest) =
     (let x = unat a; y = unat b; z = unat c
      in [alphabet ! (x div 4), alphabet ! ((x mod 4) * 16 + y div 16),
          alphabet ! ((y mod 16) * 4 + z div 64), alphabet ! (z mod 64)] @ b64 alphabet rest)"

definition urlsafe_b64encode :: "bytes \<Rightarrow> string" where
  "urlsafe_b64encode s = b64 b64_urlsafe s"

text \<open>\<^verbatim>\<open>base64.encodebytes\<close>: a line, ended by a newline, for every 57 bytes.\<close>

fun encodebytes :: "bytes \<Rightarrow> string" where
  "encodebytes [] = []"
| "encodebytes (x # xs) =
     b64 b64_standard (take 57 (x # xs)) @ [CHR 0x0A] @ encodebytes (drop 57 (x # xs))"

subsection \<open>\<^verbatim>\<open>find_extension\<close>\<close>

definition find_extension :: "env \<Rightarrow> string \<Rightarrow> state \<Rightarrow> string \<times> state" where
  "find_extension env mime_type st =
     (let mime_type = lower mime_type in
      case common_types st mime_type of
        Some ext \<Rightarrow> (ext, st)
      | None \<Rightarrow>
          (let exts = sort (guess_all_extensions env mime_type) @ [''''];
               ext = hd exts
           in (ext, st\<lparr>common_types := (common_types st)(mime_type \<mapsto> ext),
                       stdout := stdout st @
                         [''  '' @ mime_type @ '' -> '' @ [CHR 0x27] @ ext @ [CHR 0x27]]\<rparr>)))"


subsection \<open>\<^verbatim>\<open>PartHelper\<close>\<close>

record part_helper =
  part :: part
  content_type :: string
  payload :: data
  extension :: string
  digest :: string

definition falsy :: "string option \<Rightarrow> bool" where
  "falsy m = (case m of None \<Rightarrow> True | Some s \<Rightarrow> s = [])"

text \<open>Lines 56 to 69 of \<^verbatim>\<open>PartHelper.__init__\<close>: the content type the helper keeps.\<close>

definition effective_mime :: "env \<Rightarrow> part \<Rightarrow> string" where
  "effective_mime env p =
     (let mime = get_content_type p;
          pl = get_payload p;
          mime =
            (if (case mime of None \<Rightarrow> True | Some m \<Rightarrow> m = [] \<or> in_str ''octet-stream'' m)
             then (let mime' = (case magic_obj env of None \<Rightarrow> None
                                | Some id_buffer \<Rightarrow> id_buffer pl)
                   in if \<not> falsy mime' then mime' else mime)
             else mime)
      in case mime of None \<Rightarrow> '''' | Some m \<Rightarrow> m)"

definition digest_of :: "env \<Rightarrow> bytes \<Rightarrow> string" where
  "digest_of env b = urlsafe_b64encode (sha256 env b)"

text \<open>\<^verbatim>\<open>hashlib.sha256\<close> raises \<^verbatim>\<open>TypeError\<close> on anything but bytes, after
  \<^verbatim>\<open>find_extension\<close> has run.\<close>

definition PartHelper :: "env \<Rightarrow> part \<Rightarrow> state \<Rightarrow> (error + part_helper) \<times> state" where
  "PartHelper env p st =
     (let mime = effective_mime env p;
          pl = get_payload p;
          (ext, st') = find_extension env mime st
      in case pl of
           PBytes b \<Rightarrow>
             (Inr \<lparr>part = p, content_type = mime, payload = pl, extension = ext,
                   digest = digest_of env b\<rparr>, st')
         | _ \<Rightarrow> (Inl TypeError, st'))"


subsection \<open>\<^verbatim>\<open>urljoin\<close>\<close>

text \<open>
  \<^verbatim>\<open>urllib.parse.urljoin(base, url)\<close> returns \<^verbatim>\<open>url\<close> when \<^verbatim>\<open>base\<close> is false and \<^verbatim>\<open>base\<close>
  when \<^verbatim>\<open>url\<close> is false, before it looks at their types; then it raises \<^verbatim>\<open>TypeError\<close>
  when one is a \<^verbatim>\<open>str\<close> and the other is not. A \<^verbatim>\<open>Tag\<close> is always true. The program
  never passes two tags.
\<close>

definition truthy :: "pyval \<Rightarrow> bool" where
  "truthy v = (case v of PyStr s \<Rightarrow> s \<noteq> [] | PyTag t \<Rightarrow> True)"

definition urljoin :: "env \<Rightarrow> pyval \<Rightarrow> pyval \<Rightarrow> error + pyval" where
  "urljoin env base url =
     (if \<not> truthy base then Inr url
      else if \<not> truthy url then Inr base
      else case (base, url) of
             (PyStr b, PyStr u) \<Rightarrow>
               (case urljoin_str env b u of Inl e \<Rightarrow> Inl e | Inr r \<Rightarrow> Inr (PyStr r))
           | _ \<Rightarrow> Inl TypeError)"

subsection \<open>\<^verbatim>\<open>Mapped.__init__\<close>\<close>

record mapped =
  by_loc :: "pyval \<rightharpoonup> part"
  by_id :: "string \<rightharpoonup> part"
  starts :: "string set"

text \<open>The body of the loop over \<^verbatim>\<open>mess.walk()\<close>.\<close>

definition index_part :: "env \<Rightarrow> part \<Rightarrow> mapped \<Rightarrow> error + mapped" where
  "index_part env p self =
     (let self = (case start_param p of None \<Rightarrow> self
                  | Some start \<Rightarrow> self\<lparr>starts := insert start (starts self)\<rparr>);
          base = (case content_base p of None \<Rightarrow> [] | Some b \<Rightarrow> b)
      in case (case content_location p of
                 None \<Rightarrow> Inr self
               | Some loc \<Rightarrow>
                   (case urljoin env (PyStr base) (PyStr loc) of
                      Inl e \<Rightarrow> Inl e
                    | Inr k \<Rightarrow> Inr (self\<lparr>by_loc := (by_loc self)(k \<mapsto> p)\<rparr>))) of
           Inl e \<Rightarrow> Inl e
         | Inr self \<Rightarrow>
             Inr (case content_id p of None \<Rightarrow> self
                  | Some cid \<Rightarrow>
                      self\<lparr>by_id := ((by_id self)(cid \<mapsto> p))(strip_chars ''<>'' cid \<mapsto> p)\<rparr>))"

fun Mapped_walk :: "env \<Rightarrow> part list \<Rightarrow> mapped \<Rightarrow> error + mapped" where
  "Mapped_walk env [] self = Inr self"
| "Mapped_walk env (p # ps) self =
     (case index_part env p self of Inl e \<Rightarrow> Inl e | Inr self' \<Rightarrow> Mapped_walk env ps self')"

text \<open>The argument is \<^verbatim>\<open>mess.walk()\<close>: the parts of the message in document order.\<close>

definition Mapped_init :: "env \<Rightarrow> part list \<Rightarrow> error + mapped" where
  "Mapped_init env walk =
     Mapped_walk env walk \<lparr>by_loc = Map.empty, by_id = Map.empty, starts = {}\<rparr>"

definition refs :: "string \<rightharpoonup> string list" where
  "refs = map_of
     [(''a'', [''href'']),
      (''applet'', [''codebase'']),
      (''area'', [''href'']),
      (''audio'', [''src'']),
      (''blockquote'', [''cite'']),
      (''body'', [''background'']),
      (''button'', [''formaction'']),
      (''command'', [''icon'']),
      (''del'', [''cite'']),
      (''embed'', [''src'']),
      (''form'', [''action'']),
      (''frame'', [''longdesc'', ''src'']),
      (''head'', [''profile'']),
      (''html'', [''manifest'']),
      (''iframe'', [''longdesc'', ''src'']),
      (''img'', [''longdesc'', ''src'', ''usemap'']),
      (''input'', [''formaction'', ''src'', ''usemap'']),
      (''ins'', [''cite'']),
      (''link'', [''href'']),
      (''object'', [''classid'', ''codebase'', ''data'', ''usemap'']),
      (''q'', [''cite'']),
      (''script'', [''src'']),
      (''source'', [''src'']),
      (''track'', [''src'']),
      (''video'', [''poster'', ''src''])]"

subsection \<open>Computations\<close>

text \<open>
  A call runs on a state and gives an exception or a value, and the state it leaves.
  \<open>None\<close> stands for a call that does not return within the recursion depth it was given.
\<close>

type_synonym 'a comp = "state \<Rightarrow> ((error + 'a) \<times> state) option"

datatype render_arg = Helper part_helper | Part part

type_synonym renderer = "render_arg \<Rightarrow> string set \<Rightarrow> (data \<times> string) comp"

type_synonym data_renderer = "part option \<Rightarrow> string set \<Rightarrow> string option comp"

subsection \<open>\<^verbatim>\<open>InlineData\<close>\<close>

definition InlineData_data :: "bytes \<Rightarrow> string \<Rightarrow> string" where
  "InlineData_data binary ct =
     ''data:'' @ ct @ '';base64,'' @ filter (\<lambda>c. c \<noteq> CHR 0x0A) (encodebytes binary)"

text \<open>
  Line 102 evaluates \<^verbatim>\<open>seen | {ph}\<close> before it calls \<^verbatim>\<open>self.render\<close>. No \<^verbatim>\<open>ph\<close> is bound
  in the function, the module or the builtins, so the evaluation raises \<^verbatim>\<open>NameError\<close>
  and neither \<^verbatim>\<open>self.render\<close> nor \<^verbatim>\<open>self.data\<close> is entered.
\<close>

definition InlineData_render_data :: "env \<Rightarrow> renderer \<Rightarrow> data_renderer" where
  "InlineData_render_data env render mref seen st =
     (case mref of
        None \<Rightarrow> Some (Inr None, st)
      | Some p \<Rightarrow>
          (case PartHelper env p st of
             (Inl e, st') \<Rightarrow> Some (Inl e, st')
           | (Inr helper, st') \<Rightarrow>
               if digest helper \<in> seen then Some (Inr None, st')
               else Some (Inl NameError, st')))"

subsection \<open>\<^verbatim>\<open>DataDirectory\<close>\<close>

text \<open>
  \<^verbatim>\<open>open(path, "wb")\<close> creates the file, or empties it; \<^verbatim>\<open>fh.write\<close> raises \<^verbatim>\<open>TypeError\<close>
  on anything but bytes.
\<close>

definition write_file :: "string \<Rightarrow> data \<Rightarrow> unit comp" where
  "write_file fname binary st =
     (let st = st\<lparr>files := (files st)(fname \<mapsto> []), opened := opened st @ [fname]\<rparr> in
      case binary of
        PBytes b \<Rightarrow> Some (Inr (), st\<lparr>files := (files st)(fname \<mapsto> b)\<rparr>)
      | _ \<Rightarrow> Some (Inl TypeError, st))"

definition DataDirectory_render_data :: "env \<Rightarrow> renderer \<Rightarrow> data_renderer" where
  "DataDirectory_render_data env render mref seen st =
     (case mref of
        None \<Rightarrow> Some (Inr None, st)
      | Some p \<Rightarrow>
          (case PartHelper env p st of
             (Inl e, st') \<Rightarrow> Some (Inl e, st')
           | (Inr helper, st') \<Rightarrow>
               (let fname = ''blob='' @ digest helper @ extension helper in
                if digest helper \<in> seen then Some (Inr (Some fname), st')
                else if files st' fname = None then
                  (case render (Helper helper) (seen \<union> {digest helper}) st' of
                     None \<Rightarrow> None
                   | Some (Inl e, st'') \<Rightarrow> Some (Inl e, st'')
                   | Some (Inr (binary, ct), st'') \<Rightarrow>
                       (case write_file fname binary st'' of
                          None \<Rightarrow> None
                        | Some (Inl e, st''') \<Rightarrow> Some (Inl e, st''')
                        | Some (Inr u, st''') \<Rightarrow> Some (Inr (Some fname), st''')))
                else Some (Inr (Some fname), st'))))"

subsection \<open>\<^verbatim>\<open>Mapped.render\<close>\<close>

text \<open>Lines 196 to 199: every element of the list is joined, then the first is taken.\<close>

fun collect :: "(error + 'a) list \<Rightarrow> error + 'a list" where
  "collect [] = Inr []"
| "collect (Inl e # rs) = Inl e"
| "collect (Inr x # rs) = (case collect rs of Inl e \<Rightarrow> Inl e | Inr xs \<Rightarrow> Inr (x # xs))"

text \<open>\<^verbatim>\<open>doc.descendants\<close>: every node below the root, in document order; and
  \<^verbatim>\<open>doc(nm)\<close>, the tags of that name among them.\<close>

fun descendants :: "node list \<Rightarrow> node list" where
  "descendants [] = []"
| "descendants (NavigableString s # ns) = NavigableString s # descendants ns"
| "descendants (Tag t cs # ns) = Tag t cs # descendants cs @ descendants ns"

definition find_all :: "string \<Rightarrow> node list \<Rightarrow> tag list" where
  "find_all nm doc =
     concat (map (\<lambda>n. case n of Tag t cs \<Rightarrow> if name t = nm then [t] else []
                       | NavigableString s \<Rightarrow> []) (descendants doc))"

definition effective_base :: "env \<Rightarrow> node list \<Rightarrow> part \<Rightarrow> error + pyval" where
  "effective_base env doc p =
     (let loc = strip (case content_location p of None \<Rightarrow> [] | Some l \<Rightarrow> l);
          bases = map PyTag (take 1 (find_all ''base'' doc)) @
                  [PyStr (case content_base p of None \<Rightarrow> [] | Some b \<Rightarrow> b)]
      in case collect (map (\<lambda>base. urljoin env (PyStr loc) base) bases) of
           Inl e \<Rightarrow> Inl e
         | Inr joined \<Rightarrow> Inr (hd joined))"

text \<open>Lines 207 to 211: the part an attribute value refers to.\<close>

definition lookup_ref :: "env \<Rightarrow> mapped \<Rightarrow> pyval \<Rightarrow> string \<Rightarrow> error + part option" where
  "lookup_ref env self base href =
     (case urlsplit env href of
        Inl e \<Rightarrow> Inl e
      | Inr href_split \<Rightarrow>
          if scheme href_split = ''cid'' then Inr (by_id self (path href_split))
          else (case urljoin env base (PyStr href) of
                  Inl e \<Rightarrow> Inl e
                | Inr u \<Rightarrow> Inr (by_loc self u)))"

text \<open>Lines 204 to 215: the body of the loop over the attributes of a tag.\<close>

definition render_attr ::
  "env \<Rightarrow> mapped \<Rightarrow> data_renderer \<Rightarrow> pyval \<Rightarrow> string set \<Rightarrow> string \<Rightarrow> tag \<Rightarrow> tag comp" where
  "render_attr env self rd base seen attr t st =
     (let href = strip (case map_of (attrs t) attr of None \<Rightarrow> [] | Some v \<Rightarrow> v) in
      if href = [] then Some (Inr t, st)
      else
        case lookup_ref env self base href of
          Inl e \<Rightarrow> Some (Inl e, st)
        | Inr mref \<Rightarrow>
            (let st = st\<lparr>stdout := stdout st @
                        [name t @ ''.'' @ attr @ ''='' @ href @ ''; '' @
                         (if mref \<noteq> None then ''True'' else ''False'')]\<rparr>
             in case rd mref seen st of
                  None \<Rightarrow> None
                | Some (Inl e, st') \<Rightarrow> Some (Inl e, st')
                | Some (Inr None, st') \<Rightarrow> Some (Inr t, st')
                | Some (Inr (Some href'), st') \<Rightarrow>
                    Some (Inr (t\<lparr>attrs := AList.update attr href' (attrs t)\<rparr>), st')))"

fun render_attrs ::
  "env \<Rightarrow> mapped \<Rightarrow> data_renderer \<Rightarrow> pyval \<Rightarrow> string set \<Rightarrow> string list \<Rightarrow> tag \<Rightarrow> tag comp" where
  "render_attrs env self rd base seen [] t st = Some (Inr t, st)"
| "render_attrs env self rd base seen (attr # as) t st =
     (case render_attr env self rd base seen attr t st of
        None \<Rightarrow> None
      | Some (Inl e, st') \<Rightarrow> Some (Inl e, st')
      | Some (Inr t', st') \<Rightarrow> render_attrs env self rd base seen as t' st')"

text \<open>Lines 200 to 215: the loop over \<^verbatim>\<open>doc.descendants\<close>, which visits a tag, then
  its contents, then the nodes after it; the result is the document with its attributes
  rewritten in place.\<close>

fun render_nodes ::
  "env \<Rightarrow> mapped \<Rightarrow> data_renderer \<Rightarrow> pyval \<Rightarrow> string set \<Rightarrow> node list \<Rightarrow> node list comp" where
  "render_nodes env self rd base seen [] st = Some (Inr [], st)"
| "render_nodes env self rd base seen (NavigableString s # ns) st =
     (case render_nodes env self rd base seen ns st of
        None \<Rightarrow> None
      | Some (Inl e, st') \<Rightarrow> Some (Inl e, st')
      | Some (Inr ns', st') \<Rightarrow> Some (Inr (NavigableString s # ns'), st'))"
| "render_nodes env self rd base seen (Tag t cs # ns) st =
     (case render_attrs env self rd base seen
             (case refs (name t) of None \<Rightarrow> [] | Some as \<Rightarrow> as) t st of
        None \<Rightarrow> None
      | Some (Inl e, st1) \<Rightarrow> Some (Inl e, st1)
      | Some (Inr t', st1) \<Rightarrow>
          (case render_nodes env self rd base seen cs st1 of
             None \<Rightarrow> None
           | Some (Inl e, st2) \<Rightarrow> Some (Inl e, st2)
           | Some (Inr cs', st2) \<Rightarrow>
               (case render_nodes env self rd base seen ns st2 of
                  None \<Rightarrow> None
                | Some (Inl e, st3) \<Rightarrow> Some (Inl e, st3)
                | Some (Inr ns', st3) \<Rightarrow> Some (Inr (Tag t' cs' # ns'), st3))))"

definition Mapped_render :: "env \<Rightarrow> mapped \<Rightarrow> data_renderer \<Rightarrow> renderer" where
  "Mapped_render env self rd helper seen st =
     (case (case helper of Helper h \<Rightarrow> (Inr h, st) | Part p \<Rightarrow> PartHelper env p st) of
        (Inl e, st) \<Rightarrow> Some (Inl e, st)
      | (Inr helper, st) \<Rightarrow>
          (let data = payload helper;
               ct = content_type helper;
               p = part helper
           in if ct = ''text/html'' then
                (case BeautifulSoup env data of
                   Inl e \<Rightarrow> Some (Inl e, st)
                 | Inr doc \<Rightarrow>
                     (case effective_base env doc p of
                        Inl e \<Rightarrow> Some (Inl e, st)
                      | Inr base \<Rightarrow>
                          (case render_nodes env self rd base seen doc st of
                             None \<Rightarrow> None
                           | Some (Inl e, st') \<Rightarrow> Some (Inl e, st')
                           | Some (Inr doc', st') \<Rightarrow>
                               Some (Inr (PBytes (encode_doc env doc'),
                                          ''text/html;charset=utf8''), st'))))
              else case data of
                     PStr s \<Rightarrow> Some (Inr (PBytes (utf8_encode s), ct @ '';charset=utf8''), st)
                   | _ \<Rightarrow> Some (Inr (data, ct), st)))"

subsection \<open>\<^verbatim>\<open>MappedInline\<close> and \<^verbatim>\<open>MappedRelative\<close>\<close>

datatype variant = MappedInline | MappedRelative

definition render_data :: "variant \<Rightarrow> env \<Rightarrow> renderer \<Rightarrow> data_renderer" where
  "render_data v env rnd =
     (case v of MappedInline \<Rightarrow> InlineData_render_data env rnd
      | MappedRelative \<Rightarrow> DataDirectory_render_data env rnd)"

text \<open>
  \<^verbatim>\<open>self.render\<close>, with the number of nested calls of \<^verbatim>\<open>render\<close> it may make: each call
  of \<^verbatim>\<open>render\<close> hands \<^verbatim>\<open>render_data\<close> a \<^verbatim>\<open>render\<close> that may nest one level less.
\<close>

primrec render :: "variant \<Rightarrow> env \<Rightarrow> mapped \<Rightarrow> nat \<Rightarrow> renderer" where
  "render v env self 0 = (\<lambda>helper seen st. None)"
| "render v env self (Suc k) =
     Mapped_render env self (render_data v env (render v env self k))"

subsection \<open>The parts of the index\<close>

definition index_parts :: "mapped \<Rightarrow> part set" where
  "index_parts self = ran (by_loc self) \<union> ran (by_id self)"

definition index_digests :: "env \<Rightarrow> mapped \<Rightarrow> string set" where
  "index_digests env self =
     {d. \<exists>p b. p \<in> index_parts self \<and> get_payload p = PBytes b \<and> d = digest_of env b}"

subsection \<open>Sequencing\<close>

text \<open>
  The calls above are chained in one way: a call that does not return, or raises, ends
  the chain; otherwise the next call runs on the value and the state it left.
\<close>

definition bindc :: "'a comp \<Rightarrow> ('a \<Rightarrow> 'b comp) \<Rightarrow> 'b comp" where
  "bindc c f st =
     (case c st of
        None \<Rightarrow> None
      | Some (Inl e, st') \<Rightarrow> Some (Inl e, st')
      | Some (Inr x, st') \<Rightarrow> f x st')"

definition ret :: "'a \<Rightarrow> 'a comp" where
  "ret x st = Some (Inr x, st)"

text \<open>
  \<open>sat N R st c\<close>: started on \<open>st\<close>, the call \<open>c\<close> leaves a state related to \<open>st\<close> by \<open>R\<close>;
  \<open>N\<close> tells whether it may fail to return.
\<close>

definition sat :: "bool \<Rightarrow> (state \<Rightarrow> state \<Rightarrow> bool) \<Rightarrow> state \<Rightarrow> 'a comp \<Rightarrow> bool" where
  "sat N R st c = (case c st of None \<Rightarrow> N | Some (r, st') \<Rightarrow> R st st')"

definition indexed :: "mapped \<Rightarrow> part option \<Rightarrow> bool" where
  "indexed self mref = (case mref of None \<Rightarrow> True | Some p \<Rightarrow> p \<in> index_parts self)"

definition steps :: "(state \<Rightarrow> state \<Rightarrow> bool) \<Rightarrow> bool" where
  "steps R \<longleftrightarrow>
     (\<forall>s. R s s) \<and> (\<forall>s1 s2 s3. R s1 s2 \<longrightarrow> R s2 s3 \<longrightarrow> R s1 s3) \<and>
     (\<forall>s out. R s (s\<lparr>stdout := out\<rparr>)) \<and>
     (\<forall>s ct out. R s (s\<lparr>common_types := ct, stdout := out\<rparr>))"

definition rd_sat ::
  "bool \<Rightarrow> (state \<Rightarrow> state \<Rightarrow> bool) \<Rightarrow> mapped \<Rightarrow> data_renderer \<Rightarrow> string set \<Rightarrow> bool" where
  "rd_sat N R self rd seen \<longleftrightarrow> (\<forall>mref s. indexed self mref \<longrightarrow> sat N R s (rd mref seen))"

text \<open>
  \<open>fresh_writes seen st st'\<close>: from \<open>st\<close> to \<open>st'\<close> the program has opened each of the
  files \<open>new\<close> once, none of them existed in \<open>st\<close>, each is a blob of a digest outside
  \<open>seen\<close>, and no other file has changed.
\<close>

definition fresh_writes :: "string set \<Rightarrow> state \<Rightarrow> state \<Rightarrow> bool" where
  "fresh_writes seen st st' \<longleftrightarrow>
     (\<exists>new. opened st' = opened st @ new \<and> distinct new \<and>
        (\<forall>f \<in> set new. files st f = None \<and> files st' f \<noteq> None \<and>
           (\<exists>d e. f = ''blob='' @ d @ e \<and> length d = 44 \<and> d \<notin> seen)) \<and>
        (\<forall>f. f \<notin> set new \<longrightarrow> files st' f = files st f))"

text \<open>\<open>extends c c'\<close>: where the call \<open>c\<close> returns, the call \<open>c'\<close> returns the same.\<close>

definition extends :: "'a comp \<Rightarrow> 'a comp \<Rightarrow> bool" where
  "extends c c' \<longleftrightarrow> (\<forall>st r. c st = Some r \<longrightarrow> c' st = Some r)"

section \<open>Examples\<close>

text \<open>The bytes of \<^verbatim>\<open><img src=cid:image1>\<close>.\<close>

definition ex_root_html :: bytes where
  "ex_root_html =
     [0x3C, 0x69, 0x6D, 0x67, 0x20, 0x73, 0x72, 0x63, 0x3D, 0x63, 0x69, 0x64, 0x3A, 0x69,
      0x6D, 0x61, 0x67, 0x65, 0x31, 0x3E]"

definition ex_jpeg :: bytes where
  "ex_jpeg =
     [0xFF, 0xD8, 0xFF, 0xE0]"

text \<open>The bytes of \<^verbatim>\<open>decoy\<close>.\<close>

definition ex_decoy_text :: bytes where
  "ex_decoy_text =
     [0x64, 0x65, 0x63, 0x6F, 0x79]"

text \<open>The bytes of \<^verbatim>\<open><a href=b.html>B</a>\<close>.\<close>

definition ex_a_html :: bytes where
  "ex_a_html =
     [0x3C, 0x61, 0x20, 0x68, 0x72, 0x65, 0x66, 0x3D, 0x62, 0x2E, 0x68, 0x74, 0x6D, 0x6C,
      0x3E, 0x42, 0x3C, 0x2F, 0x61, 0x3E]"

text \<open>The bytes of \<^verbatim>\<open><a href=a.html>A</a>\<close>.\<close>

definition ex_b_html :: bytes where
  "ex_b_html =
     [0x3C, 0x61, 0x20, 0x68, 0x72, 0x65, 0x66, 0x3D, 0x61, 0x2E, 0x68, 0x74, 0x6D, 0x6C,
      0x3E, 0x41, 0x3C, 0x2F, 0x61, 0x3E]"

text \<open>The bytes of \<^verbatim>\<open><a href=s.html>S</a>\<close>.\<close>

definition ex_s_html :: bytes where
  "ex_s_html =
     [0x3C, 0x61, 0x20, 0x68, 0x72, 0x65, 0x66, 0x3D, 0x73, 0x2E, 0x68, 0x74, 0x6D, 0x6C,
      0x3E, 0x53, 0x3C, 0x2F, 0x61, 0x3E]"

text \<open>The bytes of \<^verbatim>\<open><base href=http://cdn.example.com/><img src=logo.png>\<close>.\<close>

definition ex_based_html :: bytes where
  "ex_based_html =
     [0x3C, 0x62, 0x61, 0x73, 0x65, 0x20, 0x68, 0x72, 0x65, 0x66, 0x3D, 0x68, 0x74, 0x74,
      0x70, 0x3A, 0x2F, 0x2F, 0x63, 0x64, 0x6E, 0x2E, 0x65, 0x78, 0x61, 0x6D, 0x70, 0x6C,
      0x65, 0x2E, 0x63, 0x6F, 0x6D, 0x2F, 0x3E, 0x3C, 0x69, 0x6D, 0x67, 0x20, 0x73, 0x72,
      0x63, 0x3D, 0x6C, 0x6F, 0x67, 0x6F, 0x2E, 0x70, 0x6E, 0x67, 0x3E]"

definition ex_png :: bytes where
  "ex_png =
     [0x89, 0x50, 0x4E, 0x47, 0x0D, 0x0A, 0x1A, 0x0A]"

definition ex_sha256 :: "bytes \<Rightarrow> bytes" where
  "ex_sha256 b =
     (if b = ex_root_html then
        [0x45, 0x9B, 0x35, 0xDB, 0x01, 0xC6, 0x3D, 0x62, 0xC4, 0xA2, 0x20, 0x20, 0x36,
         0x92, 0x46, 0xF0, 0x6B, 0x8C, 0x76, 0x84, 0xE0, 0x45, 0xB0, 0xA8, 0x8D, 0xDC,
         0x40, 0xA6, 0x4F, 0xEC, 0xCE, 0xE4]
      else if b = ex_jpeg then
        [0xBA, 0x4F, 0x25, 0xBF, 0x16, 0xBA, 0x4B, 0xE6, 0xBC, 0x7D, 0x32, 0x76, 0xFA,
         0xFE, 0xB6, 0x7F, 0x9E, 0xB3, 0xC5, 0xDF, 0x04, 0x2B, 0xC3, 0xA4, 0x05, 0xE1,
         0xAF, 0x15, 0xB9, 0x21, 0xEE, 0xD7]
      else if b = ex_decoy_text then
        [0xBD, 0xEB, 0x9B, 0xA2, 0x2A, 0xF8, 0xFA, 0x73, 0xE5, 0x9F, 0xE7, 0xC4, 0xD3,
         0xC4, 0x8A, 0xE1, 0x16, 0x56, 0x17, 0xDD, 0x76, 0xC7, 0x20, 0x77, 0x3C, 0xDF,
         0x6C, 0xBC, 0x33, 0xA9, 0x1D, 0xD7]
      else if b = ex_a_html then
        [0xED, 0xD0, 0x13, 0xE9, 0x76, 0x78, 0xCC, 0xC7, 0x8E, 0xBB, 0x5A, 0xAB, 0xBE,
         0xE5, 0x88, 0x49, 0x2C, 0x6E, 0x2B, 0xCE, 0xDC, 0x5B, 0x41, 0xBB, 0xA0, 0x33,
         0x44, 0xB2, 0xB5, 0x0F, 0x24, 0x6E]
      else if b = ex_b_html then
        [0xCE, 0xEE, 0xB4, 0x19, 0xEE, 0xD0, 0x38, 0x50, 0x40, 0x87, 0x46, 0x8C, 0x25,
         0x57, 0x7D, 0x98, 0xD8, 0x0A, 0x06, 0xEF, 0xCD, 0xE1, 0xB5, 0xF6, 0xEA, 0x46,
         0x81, 0x52, 0xCB, 0xF8, 0xC1, 0x72]
      else if b = ex_s_html then
        [0xC5, 0xF1, 0x03, 0xC2, 0x96, 0xB1, 0xDA, 0x67, 0x16, 0x32, 0xE5, 0x16, 0x7A,
         0x6A, 0x5E, 0x68, 0x55, 0x8B, 0x86, 0xCD, 0xA0, 0xA9, 0xF8, 0xA7, 0x17, 0xC4,
         0x8A, 0x7B, 0x4A, 0x6C, 0x33, 0xE3]
      else if b = ex_based_html then
        [0x3C, 0xD3, 0xFA, 0x02, 0xE1, 0x43, 0x4C, 0x91, 0x3D, 0xA0, 0xB9, 0xB0, 0xC9,
         0xDC, 0x7D, 0x0A, 0x00, 0x0C, 0x38, 0xBD, 0x95, 0x96, 0xB1, 0x7C, 0x23, 0xA3,
         0x8C, 0xA6, 0x6C, 0xC9, 0xD8, 0xCF]
      else if b = ex_png then
        [0x4C, 0x4B, 0x6A, 0x3B, 0xE1, 0x31, 0x4A, 0xB8, 0x61, 0x38, 0xBE, 0xF4, 0x31,
         0x4D, 0xDE, 0x02, 0x2E, 0x60, 0x09, 0x60, 0xD8, 0x68, 0x9A, 0x2C, 0x8F, 0x86,
         0x31, 0x80, 0x2D, 0x20, 0xDA, 0xB6]
      else replicate 32 0)"

text \<open>
  The libraries on the values of the examples: \<^verbatim>\<open>magic\<close> knows the PNG signature,
  the registry of \<^verbatim>\<open>mimetypes\<close> knows two types, \<^verbatim>\<open>sha256\<close> has its true values on
  the payloads above, \<^verbatim>\<open>urlsplit\<close> and \<^verbatim>\<open>urljoin\<close> treat \<^verbatim>\<open>cid:\<close> URLs and file
  names relative to \<^verbatim>\<open>http://example.com/\<close>, and the parser knows the documents above.
\<close>

definition ex_id_buffer :: "data \<Rightarrow> string option" where
  "ex_id_buffer d =
     (case d of
        PBytes b \<Rightarrow> if take 8 b = ex_png then Some ''image/png'' else None
      | _ \<Rightarrow> None)"

definition ex_guess_all_extensions :: "string \<Rightarrow> string list" where
  "ex_guess_all_extensions m =
     (if m = ''image/png'' then [''.png'']
      else if m = ''application/xhtml+xml'' then [''.xhtml'', ''.xht'']
      else [])"

definition ex_urlsplit :: "string \<Rightarrow> error + split_result" where
  "ex_urlsplit href =
     (if take 4 href = ''cid:'' then Inr \<lparr>scheme = ''cid'', path = drop 4 href\<rparr>
      else Inr \<lparr>scheme = [], path = href\<rparr>)"

definition ex_urljoin_str :: "string \<Rightarrow> string \<Rightarrow> error + string" where
  "ex_urljoin_str b u =
     (if take 19 b = ''http://example.com/'' \<and> take 4 u \<noteq> ''cid:''
      then Inr (''http://example.com/'' @ u)
      else Inr u)"

definition ex_BeautifulSoup :: "data \<Rightarrow> error + node list" where
  "ex_BeautifulSoup d =
     (if d = PBytes ex_root_html then
        Inr [Tag \<lparr>name = ''img'', attrs = [(''src'', ''cid:image1'')]\<rparr> []]
      else if d = PBytes ex_a_html then
        Inr [Tag \<lparr>name = ''a'', attrs = [(''href'', ''b.html'')]\<rparr> [NavigableString ''B'']]
      else if d = PBytes ex_b_html then
        Inr [Tag \<lparr>name = ''a'', attrs = [(''href'', ''a.html'')]\<rparr> [NavigableString ''A'']]
      else if d = PBytes ex_s_html then
        Inr [Tag \<lparr>name = ''a'', attrs = [(''href'', ''s.html'')]\<rparr> [NavigableString ''S'']]
      else if d = PBytes ex_based_html then
        Inr [Tag \<lparr>name = ''base'', attrs = [(''href'', ''http://cdn.example.com/'')]\<rparr> [],
             Tag \<lparr>name = ''img'', attrs = [(''src'', ''logo.png'')]\<rparr> []]
      else Inr [])"

fun ex_decode :: "node list \<Rightarrow> string" where
  "ex_decode [] = []"
| "ex_decode (NavigableString s # ns) = s @ ex_decode ns"
| "ex_decode (Tag t cs # ns) =
     ''<'' @ name t @
     concat (map (\<lambda>(k, v). '' '' @ k @ ''='' @ [CHR 0x22] @ v @ [CHR 0x22]) (attrs t)) @
     (if name t \<in> {''img'', ''base''} then ''/>''
      else ''>'' @ ex_decode cs @ ''</'' @ name t @ ''>'') @
     ex_decode ns"

definition ex_env :: env where
  "ex_env =
     \<lparr>magic_obj = Some ex_id_buffer,
      guess_all_extensions = ex_guess_all_extensions,
      sha256 = ex_sha256,
      urlsplit = ex_urlsplit,
      urljoin_str = ex_urljoin_str,
      BeautifulSoup = ex_BeautifulSoup,
      encode_doc = (\<lambda>doc. utf8_encode (ex_decode doc))\<rparr>"

text \<open>
  A message of the spec's example: a container naming its start part, an HTML part that
  shows an image by its content ID, the image, and a part whose location is the literal
  string \<^verbatim>\<open>cid:image1\<close>.
\<close>

definition ex_container :: part where
  "ex_container =
     \<lparr>get_content_type = Some ''multipart/related'', get_payload = PNone,
      content_location = None, content_base = None, content_id = None,
      start_param = Some ''<root>''\<rparr>"

definition ex_root :: part where
  "ex_root =
     \<lparr>get_content_type = Some ''text/html'', get_payload = PBytes ex_root_html,
      content_location = None, content_base = None, content_id = Some ''<root>'',
      start_param = None\<rparr>"

definition ex_image :: part where
  "ex_image =
     \<lparr>get_content_type = Some ''image/jpeg'', get_payload = PBytes ex_jpeg,
      content_location = None, content_base = None, content_id = Some ''<image1>'',
      start_param = None\<rparr>"

definition ex_decoy :: part where
  "ex_decoy =
     \<lparr>get_content_type = Some ''text/plain'', get_payload = PBytes ex_decoy_text,
      content_location = Some ''cid:image1'', content_base = None, content_id = None,
      start_param = None\<rparr>"

definition ex_walk :: "part list" where
  "ex_walk = [ex_container, ex_root, ex_image, ex_decoy]"

definition ex_mapped :: mapped where
  "ex_mapped =
     \<lparr>by_loc = [PyStr ''cid:image1'' \<mapsto> ex_decoy],
      by_id = [''<root>'' \<mapsto> ex_root, ''root'' \<mapsto> ex_root,
               ''<image1>'' \<mapsto> ex_image, ''image1'' \<mapsto> ex_image],
      starts = {''<root>''}\<rparr>"

text \<open>Two HTML parts that link to each other by location.\<close>

definition ex_a :: part where
  "ex_a =
     \<lparr>get_content_type = Some ''text/html'', get_payload = PBytes ex_a_html,
      content_location = Some ''http://example.com/a.html'', content_base = None,
      content_id = None, start_param = None\<rparr>"

definition ex_b :: part where
  "ex_b =
     \<lparr>get_content_type = Some ''text/html'', get_payload = PBytes ex_b_html,
      content_location = Some ''http://example.com/b.html'', content_base = None,
      content_id = None, start_param = None\<rparr>"

definition ex_cycle_walk :: "part list" where
  "ex_cycle_walk = [ex_a, ex_b]"

definition ex_cycle :: mapped where
  "ex_cycle =
     \<lparr>by_loc = [PyStr ''http://example.com/a.html'' \<mapsto> ex_a,
                PyStr ''http://example.com/b.html'' \<mapsto> ex_b],
      by_id = Map.empty,
      starts = {}\<rparr>"

text \<open>An HTML part that links to itself.\<close>

definition ex_s :: part where
  "ex_s =
     \<lparr>get_content_type = Some ''text/html'', get_payload = PBytes ex_s_html,
      content_location = Some ''http://example.com/s.html'', content_base = None,
      content_id = None, start_param = None\<rparr>"

definition ex_selfref :: mapped where
  "ex_selfref =
     \<lparr>by_loc = [PyStr ''http://example.com/s.html'' \<mapsto> ex_s],
      by_id = Map.empty,
      starts = {}\<rparr>"

text \<open>An HTML part with a \<^verbatim>\<open>base\<close> element, and a PNG image declared as
  \<^verbatim>\<open>application/octet-stream\<close>.\<close>

definition ex_based :: part where
  "ex_based =
     \<lparr>get_content_type = Some ''text/html'', get_payload = PBytes ex_based_html,
      content_location = Some ''http://example.com/page.html'', content_base = None,
      content_id = None, start_param = None\<rparr>"


section \<open>Properties\<close>

subsection \<open>\<^verbatim>\<open>find_extension\<close>\<close>











subsection \<open>\<^verbatim>\<open>PartHelper\<close>\<close>

lemma PartHelper_bytes:
  "get_payload p = PBytes b \<Longrightarrow>
   PartHelper env p st =
     (Inr \<lparr>part = p, content_type = effective_mime env p, payload = PBytes b,
           extension = fst (find_extension env (effective_mime env p) st),
           digest = digest_of env b\<rparr>,
      snd (find_extension env (effective_mime env p) st))"
  by (simp add: PartHelper_def Let_def split: prod.split)

lemma PartHelper_Inr:
  assumes "PartHelper env p st = (Inr h, st')"
  shows "\<exists>b. get_payload p = PBytes b \<and>
           h = \<lparr>part = p, content_type = effective_mime env p, payload = PBytes b,
                extension = fst (find_extension env (effective_mime env p) st),
                digest = digest_of env b\<rparr> \<and>
           st' = snd (find_extension env (effective_mime env p) st)"
  using assms by (auto simp: PartHelper_def Let_def split: prod.splits data.splits)

lemma find_extension_files [simp]:
  "files (snd (find_extension env m st)) = files st"
  "opened (snd (find_extension env m st)) = opened st"
  by (simp_all add: find_extension_def Let_def split: option.split)

lemma PartHelper_state:
  "snd (PartHelper env p st) = snd (find_extension env (effective_mime env p) st)"
  by (simp add: PartHelper_def Let_def split: prod.split data.split)

lemma PartHelper_files:
  assumes "PartHelper env p st = (r, st')"
  shows "files st' = files st \<and> opened st' = opened st"
proof -
  have "st' = snd (find_extension env (effective_mime env p) st)"
    using assms PartHelper_state [of env p st] by simp
  then show ?thesis by simp
qed


subsection \<open>Rendering a part that is not HTML\<close>

lemma Mapped_render_Helper_plain:
  "content_type h \<noteq> ''text/html'' \<Longrightarrow>
   Mapped_render env self rd (Helper h) seen st =
     Some (Inr (case payload h of
                  PStr s \<Rightarrow> (PBytes (utf8_encode s), content_type h @ '';charset=utf8'')
                | PBytes b \<Rightarrow> (PBytes b, content_type h)
                | PNone \<Rightarrow> (PNone, content_type h)), st)"
  by (simp add: Mapped_render_def split: data.split)

lemma Mapped_render_Part_plain:
  "effective_mime env p \<noteq> ''text/html'' \<Longrightarrow> get_payload p = PBytes b \<Longrightarrow>
   Mapped_render env self rd (Part p) seen st =
     Some (Inr (PBytes b, effective_mime env p),
           snd (find_extension env (effective_mime env p) st))"
  by (simp add: Mapped_render_def PartHelper_bytes)

lemma Mapped_render_Part_error:
  "\<forall>b. get_payload p \<noteq> PBytes b \<Longrightarrow>
   Mapped_render env self rd (Part p) seen st =
     Some (Inl TypeError, snd (find_extension env (effective_mime env p) st))"
  by (cases "get_payload p") (simp_all add: Mapped_render_def PartHelper_def Let_def split: prod.split)

lemma render_plain_seen:
  assumes "case arg of Helper h \<Rightarrow> content_type h \<noteq> ''text/html''
           | Part p \<Rightarrow> effective_mime env p \<noteq> ''text/html''"
  shows "render v env self k arg seen st = render v env self k arg seen' st"
proof (cases k)
  case 0
  then show ?thesis by simp
next
  case (Suc j)
  show ?thesis
  proof (cases arg)
    case (Helper h)
    with assms Suc show ?thesis by (simp add: Mapped_render_Helper_plain)
  next
    case (Part p)
    show ?thesis
    proof (cases "\<exists>b. get_payload p = PBytes b")
      case True
      with assms Suc Part show ?thesis by (auto simp: Mapped_render_Part_plain)
    next
      case False
      with assms Suc Part show ?thesis by (simp add: Mapped_render_Part_error)
    qed
  qed
qed

subsection \<open>\<^verbatim>\<open>render_data\<close>\<close>

lemma InlineData_None: "InlineData_render_data env rnd None seen st = Some (Inr None, st)"
  by (simp add: InlineData_render_data_def)

lemma DataDirectory_None: "DataDirectory_render_data env rnd None seen st = Some (Inr None, st)"
  by (simp add: DataDirectory_render_data_def)


lemma InlineData_fresh:
  "PartHelper env p st = (Inr h, st') \<Longrightarrow> digest h \<notin> seen \<Longrightarrow>
   InlineData_render_data env rnd (Some p) seen st = Some (Inl NameError, st')"
  by (simp add: InlineData_render_data_def)

lemma DataDirectory_seen:
  "PartHelper env p st = (Inr h, st') \<Longrightarrow> digest h \<in> seen \<Longrightarrow>
   DataDirectory_render_data env rnd (Some p) seen st =
     Some (Inr (Some (''blob='' @ digest h @ extension h)), st')"
  by (simp add: DataDirectory_render_data_def)

lemma DataDirectory_exists:
  "PartHelper env p st = (Inr h, st') \<Longrightarrow> files st' (''blob='' @ digest h @ extension h) \<noteq> None \<Longrightarrow>
   DataDirectory_render_data env rnd (Some p) seen st =
     Some (Inr (Some (''blob='' @ digest h @ extension h)), st')"
  by (auto simp add: DataDirectory_render_data_def Let_def)

subsection \<open>Sequencing\<close>

lemma steps_refl: "steps R \<Longrightarrow> R s s"
  by (simp add: steps_def)

lemma steps_trans: "steps R \<Longrightarrow> R s1 s2 \<Longrightarrow> R s2 s3 \<Longrightarrow> R s1 s3"
  unfolding steps_def by blast

lemma steps_print: "steps R \<Longrightarrow> R s (s\<lparr>stdout := out\<rparr>)"
  by (simp add: steps_def)

lemma steps_find_extension: "steps R \<Longrightarrow> R s (snd (find_extension env m s))"
  by (simp add: steps_def find_extension_def Let_def split: option.split)

lemma steps_PartHelper:
  assumes "steps R" and "PartHelper env p s = (r, s')"
  shows "R s s'"
proof -
  have "s' = snd (find_extension env (effective_mime env p) s)"
    using assms(2) PartHelper_state [of env p s] by simp
  with assms(1) show ?thesis by (simp add: steps_find_extension)
qed

lemma sat_ret: "steps R \<Longrightarrow> sat N R st (ret x)"
  by (simp add: sat_def ret_def steps_refl)

lemma sat_bindc:
  assumes R: "steps R"
    and c: "sat N R st c"
    and f: "\<And>x st'. c st = Some (Inr x, st') \<Longrightarrow> sat N R st' (f x)"
  shows "sat N R st (bindc c f)"
proof (cases "c st")
  case None
  with c show ?thesis by (simp add: sat_def bindc_def)
next
  case (Some rs)
  obtain r st' where rs: "rs = (r, st')" by (cases rs)
  from c Some rs have R1: "R st st'" by (simp add: sat_def)
  show ?thesis
  proof (cases r)
    case (Inl e)
    with Some rs R1 show ?thesis by (simp add: sat_def bindc_def)
  next
    case (Inr x)
    with Some rs have cx: "c st = Some (Inr x, st')" by simp
    from f [OF cx] have fx: "sat N R st' (f x)" .
    show ?thesis
    proof (cases "f x st'")
      case None
      with fx cx show ?thesis by (simp add: sat_def bindc_def)
    next
      case (Some rs2)
      obtain r2 st2 where rs2: "rs2 = (r2, st2)" by (cases rs2)
      from fx Some rs2 have "R st' st2" by (simp add: sat_def)
      with R1 have "R st st2" by (rule steps_trans [OF R])
      with cx Some rs2 show ?thesis by (simp add: sat_def bindc_def)
    qed
  qed
qed

lemma render_attrs_bindc:
  "render_attrs env self rd base seen (attr # as) t =
     bindc (render_attr env self rd base seen attr t)
       (\<lambda>t'. render_attrs env self rd base seen as t')"
  by (rule ext) (simp add: bindc_def split: option.split sum.split prod.split)

lemma render_nodes_string_bindc:
  "render_nodes env self rd base seen (NavigableString s # ns) =
     bindc (render_nodes env self rd base seen ns) (\<lambda>ns'. ret (NavigableString s # ns'))"
  by (rule ext) (simp add: bindc_def ret_def split: option.split sum.split prod.split)

lemma render_nodes_tag_bindc:
  "render_nodes env self rd base seen (Tag t cs # ns) =
     bindc (render_attrs env self rd base seen
              (case refs (name t) of None \<Rightarrow> [] | Some as \<Rightarrow> as) t)
       (\<lambda>t'. bindc (render_nodes env self rd base seen cs)
          (\<lambda>cs'. bindc (render_nodes env self rd base seen ns)
             (\<lambda>ns'. ret (Tag t' cs' # ns'))))"
  by (rule ext) (simp add: bindc_def ret_def split: option.split sum.split prod.split)

subsection \<open>From the calls of \<^verbatim>\<open>render_data\<close> to \<^verbatim>\<open>render\<close>\<close>

lemma lookup_ref_indexed:
  "lookup_ref env self base href = Inr mref \<Longrightarrow> indexed self mref"
  by (auto simp: lookup_ref_def indexed_def index_parts_def ran_def
           split: sum.splits if_splits option.splits)

lemma sat_render_attr:
  assumes R: "steps R" and rd: "rd_sat N R self rd seen"
  shows "sat N R st (render_attr env self rd base seen attr t)"
proof -
  let ?href = "strip (case map_of (attrs t) attr of None \<Rightarrow> [] | Some v \<Rightarrow> v)"
  show ?thesis
  proof (cases "?href = []")
    case True
    then show ?thesis by (simp add: render_attr_def sat_def steps_refl [OF R])
  next
    case False
    show ?thesis
    proof (cases "lookup_ref env self base ?href")
      case (Inl e)
      with False show ?thesis by (simp add: render_attr_def sat_def steps_refl [OF R])
    next
      case (Inr mref)
      let ?st = "st\<lparr>stdout := stdout st @
                   [name t @ ''.'' @ attr @ ''='' @ ?href @ ''; '' @
                    (if mref \<noteq> None then ''True'' else ''False'')]\<rparr>"
      have s: "sat N R ?st (rd mref seen)"
        using rd lookup_ref_indexed [OF Inr] by (simp add: rd_sat_def)
      have p: "R st ?st" by (rule steps_print [OF R])
      show ?thesis
      proof (cases "rd mref seen ?st")
        case None
        with s False Inr show ?thesis by (simp add: render_attr_def sat_def Let_def)
      next
        case (Some rs)
        obtain r st' where rs: "rs = (r, st')" by (cases rs)
        from s Some rs have "R ?st st'" by (simp add: sat_def)
        with p have "R st st'" by (rule steps_trans [OF R])
        with Some rs False Inr show ?thesis
          by (simp add: render_attr_def sat_def Let_def split: sum.split option.split)
      qed
    qed
  qed
qed

lemma sat_render_attrs:
  assumes R: "steps R" and rd: "rd_sat N R self rd seen"
  shows "sat N R st (render_attrs env self rd base seen as t)"
proof (induction as arbitrary: t st)
  case Nil
  show ?case by (simp add: sat_def steps_refl [OF R])
next
  case (Cons a as)
  have a: "sat N R st (render_attr env self rd base seen a t)"
    by (rule sat_render_attr [OF R rd])
  show ?case
    unfolding render_attrs_bindc
    by (rule sat_bindc [OF R a Cons.IH])
qed

lemma sat_render_nodes_all:
  assumes R: "steps R" and rd: "rd_sat N R self rd seen"
  shows "\<forall>st. sat N R st (render_nodes env self rd base seen doc)"
proof (induction "size_list size doc" arbitrary: doc rule: less_induct)
  case less
  show ?case
  proof (cases doc)
    case Nil
    then show ?thesis by (auto simp add: sat_def steps_refl [OF R])
  next
    case (Cons n ns)
    show ?thesis
    proof (cases n)
      case (NavigableString s)
      have ns: "sat N R st (render_nodes env self rd base seen ns)" for st
        using less [of ns] by (simp add: Cons)
      have "sat N R st (bindc (render_nodes env self rd base seen ns)
                      (\<lambda>ns'. ret (NavigableString s # ns')))" for st
        by (rule sat_bindc [OF R ns sat_ret [OF R]])
      then show ?thesis
        unfolding Cons NavigableString render_nodes_string_bindc by simp
    next
      case (Tag t cs)
      let ?as = "case refs (name t) of None \<Rightarrow> [] | Some as \<Rightarrow> as"
      have cs: "sat N R st (render_nodes env self rd base seen cs)" for st
        using less [of cs] by (simp add: Cons Tag)
      have ns: "sat N R st (render_nodes env self rd base seen ns)" for st
        using less [of ns] by (simp add: Cons Tag)
      have as: "sat N R st (render_attrs env self rd base seen ?as t)" for st
        by (rule sat_render_attrs [OF R rd])
      have 3: "sat N R st (bindc (render_nodes env self rd base seen ns)
                      (\<lambda>ns'. ret (Tag t' cs' # ns')))" for t' cs' st
        by (rule sat_bindc [OF R ns sat_ret [OF R]])
      have 2: "sat N R st (bindc (render_nodes env self rd base seen cs)
                  (\<lambda>cs'. bindc (render_nodes env self rd base seen ns)
                     (\<lambda>ns'. ret (Tag t' cs' # ns'))))" for t' st
        by (rule sat_bindc [OF R cs 3])
      have "sat N R st (bindc (render_attrs env self rd base seen ?as t)
               (\<lambda>t'. bindc (render_nodes env self rd base seen cs)
                  (\<lambda>cs'. bindc (render_nodes env self rd base seen ns)
                     (\<lambda>ns'. ret (Tag t' cs' # ns')))))" for st
        by (rule sat_bindc [OF R as 2])
      then show ?thesis
        unfolding Cons Tag render_nodes_tag_bindc by simp
    qed
  qed
qed

lemma sat_Mapped_render:
  assumes R: "steps R" and rd: "rd_sat N R self rd seen"
  shows "sat N R st (Mapped_render env self rd arg seen)"
proof -
  have nodes: "sat N R s (render_nodes env self rd base seen doc)" for base doc s
    using sat_render_nodes_all [OF R rd] by simp
  have body: "sat N R s (Mapped_render env self rd (Helper h) seen)" for h s
  proof (cases "content_type h = ''text/html''")
    case False
    then show ?thesis by (simp add: Mapped_render_Helper_plain sat_def steps_refl [OF R])
  next
    case True
    show ?thesis
    proof (cases "BeautifulSoup env (payload h)")
      case (Inl e)
      with True show ?thesis by (simp add: Mapped_render_def sat_def steps_refl [OF R])
    next
      case (Inr doc)
      show ?thesis
      proof (cases "effective_base env doc (part h)")
        case (Inl e)
        with True Inr show ?thesis by (simp add: Mapped_render_def sat_def steps_refl [OF R])
      next
        case base: (Inr base)
        from nodes [of s base doc] True Inr base show ?thesis
          by (auto simp add: Mapped_render_def sat_def split: option.splits sum.splits prod.splits)
      qed
    qed
  qed
  show ?thesis
  proof (cases arg)
    case (Helper h)
    then show ?thesis by (simp add: body)
  next
    case (Part p)
    obtain r s1 where ph: "PartHelper env p st = (r, s1)" by (cases "PartHelper env p st")
    have R1: "R st s1" by (rule steps_PartHelper [OF R ph])
    show ?thesis
    proof (cases r)
      case (Inl e)
      with Part ph R1 show ?thesis by (simp add: Mapped_render_def sat_def)
    next
      case (Inr h)
      have eq: "Mapped_render env self rd (Part p) seen st = Mapped_render env self rd (Helper h) seen s1"
        using ph Inr by (simp add: Mapped_render_def)
      from body [of s1 h] R1 show ?thesis
        unfolding Part sat_def eq
        by (auto split: option.splits prod.splits intro: steps_trans [OF R])
    qed
  qed
qed


subsection \<open>Termination\<close>

lemma steps_True: "steps (\<lambda>s s'. True)"
  by (simp add: steps_def)

lemma sat_total: "sat False (\<lambda>s s'. True) st c \<longleftrightarrow> c st \<noteq> None"
  by (simp add: sat_def split: option.split prod.split)

lemma write_file_total: "write_file f binary st \<noteq> None"
  by (simp add: write_file_def Let_def split: data.split)

lemma indexed_digest:
  assumes "indexed self (Some p)" and "PartHelper env p s = (Inr h, s')"
  shows "digest h \<in> index_digests env self"
proof -
  from PartHelper_Inr [OF assms(2)]
  obtain b where "get_payload p = PBytes b" and "digest h = digest_of env b" by auto
  with assms(1) show ?thesis by (auto simp: index_digests_def indexed_def)
qed

lemma render_total:
  assumes fin: "finite (index_digests env self)"
  shows "card (index_digests env self - seen) < k \<Longrightarrow> render v env self k arg seen st \<noteq> None"
proof (induction k arbitrary: seen arg st)
  case 0
  then show ?case by simp
next
  case (Suc k)
  have "render_data v env (render v env self k) mref seen s \<noteq> None"
    if ix: "indexed self mref" for mref s
  proof (cases v)
    case MappedInline
    then show ?thesis
      by (simp add: render_data_def InlineData_render_data_def
               split: option.split prod.split sum.split)
  next
    case MappedRelative
    show ?thesis
    proof (cases mref)
      case None
      with MappedRelative show ?thesis by (simp add: render_data_def DataDirectory_None)
    next
      case (Some p)
      obtain r s' where ph: "PartHelper env p s = (r, s')" by (cases "PartHelper env p s")
      have "DataDirectory_render_data env (render v env self k) (Some p) seen s \<noteq> None"
      proof (cases r)
        case (Inl e)
        with ph show ?thesis by (simp add: DataDirectory_render_data_def)
      next
        case (Inr h)
        have mem: "digest h \<in> index_digests env self"
          using ix ph unfolding Some Inr by (rule indexed_digest)
        show ?thesis
        proof (cases "digest h \<in> seen")
          case True
          with ph Inr show ?thesis by (simp add: DataDirectory_render_data_def)
        next
          case False
          have "index_digests env self - (seen \<union> {digest h}) \<subset> index_digests env self - seen"
            using mem False by auto
          then have "card (index_digests env self - (seen \<union> {digest h})) <
                       card (index_digests env self - seen)"
            using fin by (intro psubset_card_mono) auto
          with Suc.prems have "card (index_digests env self - (seen \<union> {digest h})) < k"
            by simp
          then have "render v env self k (Helper h) (seen \<union> {digest h}) s' \<noteq> None"
            by (rule Suc.IH)
          with ph Inr False show ?thesis
            by (simp add: DataDirectory_render_data_def Let_def write_file_total
                     del: not_None_eq split: option.split sum.split prod.split)
        qed
      qed
      with MappedRelative Some show ?thesis by (simp add: render_data_def)
    qed
  qed
  then have "rd_sat False (\<lambda>s s'. True) self (render_data v env (render v env self k)) seen"
    by (simp add: rd_sat_def sat_total del: not_None_eq)
  from sat_Mapped_render [OF steps_True this]
  show ?case by (simp add: sat_total del: not_None_eq)
qed

subsection \<open>The index of a message\<close>

lemma index_part_parts:
  "index_part env p self = Inr self' \<Longrightarrow> index_parts self' \<subseteq> insert p (index_parts self)"
  by (auto simp: index_part_def index_parts_def Let_def ran_def
           split: option.splits sum.splits if_splits)

lemma Mapped_walk_parts:
  "Mapped_walk env ps self = Inr self' \<Longrightarrow> index_parts self' \<subseteq> set ps \<union> index_parts self"
proof (induction ps arbitrary: self)
  case Nil
  then show ?case by simp
next
  case (Cons p ps)
  then obtain s1 where s1: "index_part env p self = Inr s1" and w: "Mapped_walk env ps s1 = Inr self'"
    by (auto split: sum.splits)
  from Cons.IH [OF w] index_part_parts [OF s1] show ?case by auto
qed

lemma Mapped_init_parts:
  "Mapped_init env walk = Inr self \<Longrightarrow> index_parts self \<subseteq> set walk"
  using Mapped_walk_parts [of env walk "\<lparr>by_loc = Map.empty, by_id = Map.empty, starts = {}\<rparr>" self]
  by (simp add: Mapped_init_def index_parts_def)

lemma index_digests_image:
  "index_digests env self \<subseteq>
     (\<lambda>p. case get_payload p of PBytes b \<Rightarrow> digest_of env b | _ \<Rightarrow> []) ` index_parts self"
  by (force simp: index_digests_def image_iff)

lemma Mapped_init_digests:
  assumes "Mapped_init env walk = Inr self"
  shows "finite (index_digests env self) \<and> card (index_digests env self) \<le> length walk"
proof -
  let ?f = "\<lambda>p. case get_payload p of PBytes b \<Rightarrow> digest_of env b | _ \<Rightarrow> []"
  have sub: "index_digests env self \<subseteq> ?f ` set walk"
    using index_digests_image [of env self] Mapped_init_parts [OF assms] by blast
  then have fin: "finite (index_digests env self)"
    by (rule finite_subset) simp
  have "card (index_digests env self) \<le> card (?f ` set walk)"
    using sub by (intro card_mono) auto
  also have "\<dots> \<le> card (set walk)" by (intro card_image_le) simp
  also have "\<dots> \<le> length walk" by (rule card_length)
  finally show ?thesis using fin by simp
qed

lemma render_returns:
  assumes "Mapped_init env walk = Inr self" and "length walk < k"
  shows "\<exists>r. render v env self k arg seen st = Some r"
proof -
  from Mapped_init_digests [OF assms(1)]
  have fin: "finite (index_digests env self)" and le: "card (index_digests env self) \<le> length walk"
    by auto
  have "card (index_digests env self - seen) \<le> card (index_digests env self)"
    using fin by (intro card_mono) auto
  with le assms(2) have "card (index_digests env self - seen) < k" by simp
  from render_total [OF fin this] show ?thesis by auto
qed

subsection \<open>Files are written once\<close>

lemma b64_length: "length (b64 alphabet xs) = 4 * ((length xs + 2) div 3)"
proof (induction alphabet xs rule: b64.induct)
  case (4 alphabet a b c rest)
  have "(5 + length rest) div 3 = Suc ((2 + length rest) div 3)" by arith
  with 4 show ?case by (simp add: Let_def)
qed (simp_all add: Let_def)

lemma digest_length: "length (sha256 env b) = 32 \<Longrightarrow> length (digest_of env b) = 44"
  by (simp add: digest_of_def urlsafe_b64encode_def b64_length)

lemma fresh_writes_refl: "fresh_writes seen s s"
  unfolding fresh_writes_def by (intro exI [of _ "[]"]) simp

lemma fresh_writes_same:
  "files s' = files s \<Longrightarrow> opened s' = opened s \<Longrightarrow> fresh_writes seen s s'"
  unfolding fresh_writes_def by (intro exI [of _ "[]"]) simp

lemma fresh_writes_trans:
  assumes 1: "fresh_writes seen s1 s2" and 2: "fresh_writes seen s2 s3"
  shows "fresh_writes seen s1 s3"
proof -
  from 1 obtain n1 where o1: "opened s2 = opened s1 @ n1" and d1: "distinct n1"
    and f1: "\<forall>f \<in> set n1. files s1 f = None \<and> files s2 f \<noteq> None \<and>
           (\<exists>d e. f = ''blob='' @ d @ e \<and> length d = 44 \<and> d \<notin> seen)"
    and k1: "\<forall>f. f \<notin> set n1 \<longrightarrow> files s2 f = files s1 f"
    unfolding fresh_writes_def by blast
  from 2 obtain n2 where o2: "opened s3 = opened s2 @ n2" and d2: "distinct n2"
    and f2: "\<forall>f \<in> set n2. files s2 f = None \<and> files s3 f \<noteq> None \<and>
           (\<exists>d e. f = ''blob='' @ d @ e \<and> length d = 44 \<and> d \<notin> seen)"
    and k2: "\<forall>f. f \<notin> set n2 \<longrightarrow> files s3 f = files s2 f"
    unfolding fresh_writes_def by blast
  have disj: "set n1 \<inter> set n2 = {}" using f1 f2 by blast
  have "opened s3 = opened s1 @ (n1 @ n2)" using o1 o2 by simp
  moreover have "distinct (n1 @ n2)" using d1 d2 disj by simp
  moreover have "\<forall>f \<in> set (n1 @ n2). files s1 f = None \<and> files s3 f \<noteq> None \<and>
           (\<exists>d e. f = ''blob='' @ d @ e \<and> length d = 44 \<and> d \<notin> seen)"
  proof
    fix f assume "f \<in> set (n1 @ n2)"
    then consider "f \<in> set n1" | "f \<in> set n2" by auto
    then show "files s1 f = None \<and> files s3 f \<noteq> None \<and>
           (\<exists>d e. f = ''blob='' @ d @ e \<and> length d = 44 \<and> d \<notin> seen)"
    proof cases
      case 1
      with disj have "f \<notin> set n2" by blast
      with k2 have "files s3 f = files s2 f" by simp
      with f1 1 show ?thesis by simp
    next
      case 2
      with disj have "f \<notin> set n1" by blast
      with k1 have "files s2 f = files s1 f" by simp
      with f2 2 show ?thesis by simp
    qed
  qed
  moreover have "\<forall>f. f \<notin> set (n1 @ n2) \<longrightarrow> files s3 f = files s1 f"
    using k1 k2 by simp
  ultimately show ?thesis unfolding fresh_writes_def by blast
qed

lemma fresh_writes_mono:
  assumes "fresh_writes (seen \<union> X) s s'"
  shows "fresh_writes seen s s'"
proof -
  from assms obtain new where o: "opened s' = opened s @ new" and d: "distinct new"
    and f: "\<forall>f \<in> set new. files s f = None \<and> files s' f \<noteq> None \<and>
           (\<exists>d e. f = ''blob='' @ d @ e \<and> length d = 44 \<and> d \<notin> seen \<union> X)"
    and k: "\<forall>f. f \<notin> set new \<longrightarrow> files s' f = files s f"
    unfolding fresh_writes_def by blast
  from f have "\<forall>f \<in> set new. files s f = None \<and> files s' f \<noteq> None \<and>
           (\<exists>d e. f = ''blob='' @ d @ e \<and> length d = 44 \<and> d \<notin> seen)"
    by blast
  with o d k show ?thesis unfolding fresh_writes_def by blast
qed

lemma steps_fresh_writes: "steps (fresh_writes seen)"
  unfolding steps_def
  by (auto intro: fresh_writes_refl fresh_writes_trans fresh_writes_same)

lemma fresh_writes_untouched:
  assumes fw: "fresh_writes (seen \<union> {d}) s s'" and len: "length d = 44" and none: "files s (''blob='' @ d @ e) = None"
  shows "files s' (''blob='' @ d @ e) = None \<and> ''blob='' @ d @ e \<notin> set (opened s') - set (opened s)"
proof -
  from fw obtain new where o: "opened s' = opened s @ new"
    and f: "\<forall>f \<in> set new. files s f = None \<and> files s' f \<noteq> None \<and>
           (\<exists>d' e'. f = ''blob='' @ d' @ e' \<and> length d' = 44 \<and> d' \<notin> seen \<union> {d})"
    and k: "\<forall>f. f \<notin> set new \<longrightarrow> files s' f = files s f"
    unfolding fresh_writes_def by blast
  have notin: "''blob='' @ d @ e \<notin> set new"
  proof
    assume "''blob='' @ d @ e \<in> set new"
    with f obtain d' e' where eq: "''blob='' @ d @ e = ''blob='' @ d' @ e'"
      and l: "length d' = 44" and n: "d' \<notin> seen \<union> {d}" by blast
    from eq have "d @ e = d' @ e'" by simp
    with len l have "d = d'" by simp
    with n show False by simp
  qed
  with k none o show ?thesis by auto
qed

lemma write_file_fresh:
  assumes none: "files s f = None" and f: "f = ''blob='' @ d @ e" and len: "length d = 44"
    and d: "d \<notin> seen" and w: "write_file f binary s = Some (r, s')"
  shows "fresh_writes seen s s'"
proof -
  have o: "opened s' = opened s @ [f]" and fs: "files s' f \<noteq> None"
    and k: "\<forall>g. g \<noteq> f \<longrightarrow> files s' g = files s g"
    using w by (auto simp: write_file_def Let_def split: data.splits)
  show ?thesis
    unfolding fresh_writes_def
    using o fs k none f len d by (intro exI [of _ "[f]"]) auto
qed

lemma sat_DataDirectory:
  assumes len: "\<forall>b. length (sha256 env b) = 32"
    and rnd: "\<And>arg seen s. sat True (fresh_writes seen) s (rnd arg seen)"
  shows "sat True (fresh_writes seen) st (DataDirectory_render_data env rnd mref seen)"
proof (cases mref)
  case None
  then show ?thesis by (simp add: DataDirectory_None sat_def fresh_writes_refl)
next
  case (Some p)
  obtain r s1 where ph: "PartHelper env p st = (r, s1)" by (cases "PartHelper env p st")
  have R1: "fresh_writes seen st s1"
    by (rule steps_PartHelper [OF steps_fresh_writes ph])
  show ?thesis
  proof (cases r)
    case (Inl e)
    with Some ph R1 show ?thesis by (simp add: DataDirectory_render_data_def sat_def)
  next
    case (Inr h)
    let ?f = "''blob='' @ digest h @ extension h"
    from PartHelper_Inr [OF ph [unfolded Inr]]
    obtain b where "digest h = digest_of env b" by auto
    with len have l: "length (digest h) = 44" by (simp add: digest_length)
    show ?thesis
    proof (cases "digest h \<in> seen \<or> files s1 ?f \<noteq> None")
      case True
      with Some ph Inr R1 show ?thesis
        by (auto simp: DataDirectory_render_data_def Let_def sat_def)
    next
      case False
      then have fresh: "digest h \<notin> seen" and none: "files s1 ?f = None" by auto
      show ?thesis
      proof (cases "rnd (Helper h) (seen \<union> {digest h}) s1")
        case None
        with Some ph Inr fresh none show ?thesis
          by (simp add: DataDirectory_render_data_def Let_def sat_def)
      next
        case (Some rs)
        obtain r2 s2 where rs: "rs = (r2, s2)" by (cases rs)
        from rnd [of "seen \<union> {digest h}" s1 "Helper h"] Some rs
        have fw: "fresh_writes (seen \<union> {digest h}) s1 s2" by (simp add: sat_def)
        then have R2: "fresh_writes seen s1 s2" by (rule fresh_writes_mono)
        with R1 have R12: "fresh_writes seen st s2" by (rule fresh_writes_trans)
        show ?thesis
        proof (cases r2)
          case (Inl e)
          with \<open>mref = Some p\<close> ph Inr fresh none Some rs R12 show ?thesis
            by (simp add: DataDirectory_render_data_def Let_def sat_def)
        next
          case r2: (Inr bc)
          obtain binary ct where bc: "bc = (binary, ct)" by (cases bc)
          from fresh_writes_untouched [OF fw l none] have none2: "files s2 ?f = None" by simp
          obtain r3 s3 where w: "write_file ?f binary s2 = Some (r3, s3)"
            using write_file_total [of ?f binary s2] by auto
          have "fresh_writes seen s2 s3"
            by (rule write_file_fresh [OF none2 refl l fresh w])
          with R12 have "fresh_writes seen st s3" by (rule fresh_writes_trans)
          with \<open>mref = Some p\<close> ph Inr fresh none Some rs r2 bc w show ?thesis
            by (simp add: DataDirectory_render_data_def Let_def sat_def split: sum.split)
        qed
      qed
    qed
  qed
qed

lemma sat_InlineData:
  "sat True (fresh_writes seen) st (InlineData_render_data env rnd mref seen)"
proof (cases mref)
  case None
  then show ?thesis by (simp add: InlineData_None sat_def fresh_writes_refl)
next
  case (Some p)
  obtain r s1 where ph: "PartHelper env p st = (r, s1)" by (cases "PartHelper env p st")
  have "fresh_writes seen st s1"
    by (rule steps_PartHelper [OF steps_fresh_writes ph])
  with Some ph show ?thesis
    by (simp add: InlineData_render_data_def sat_def split: sum.split)
qed

lemma render_fresh_writes:
  assumes len: "\<forall>b. length (sha256 env b) = 32"
  shows "sat True (fresh_writes seen) st (render v env self k arg seen)"
proof (induction k arbitrary: arg seen st)
  case 0
  show ?case by (simp add: sat_def)
next
  case (Suc k)
  have dd: "sat True (fresh_writes seen) s
              (DataDirectory_render_data env (render v env self k) mref seen)" for mref s
    by (rule sat_DataDirectory [OF len]) (rule Suc.IH)
  have "sat True (fresh_writes seen) s (render_data v env (render v env self k) mref seen)" for mref s
    using dd [of s mref] by (cases v) (simp_all add: render_data_def sat_InlineData)
  then have "rd_sat True (fresh_writes seen) self (render_data v env (render v env self k)) seen"
    by (simp add: rd_sat_def)
  from sat_Mapped_render [OF steps_fresh_writes this] show ?case by simp
qed

subsection \<open>A deeper recursion gives the same result\<close>

lemma extends_refl: "extends c c"
  by (simp add: extends_def)

lemma extendsD: "extends c c' \<Longrightarrow> c st = Some r \<Longrightarrow> c' st = Some r"
  unfolding extends_def by blast

lemma extends_bindc:
  assumes c: "extends c c'" and f: "\<And>x. extends (f x) (f' x)"
  shows "extends (bindc c f) (bindc c' f')"
  unfolding extends_def
proof (intro allI impI)
  fix st r
  assume b: "bindc c f st = Some r"
  then obtain r1 where c1: "c st = Some r1" by (cases "c st") (auto simp: bindc_def)
  with c have c2: "c' st = Some r1" by (rule extendsD)
  obtain a s1 where r1: "r1 = (a, s1)" by (cases r1)
  show "bindc c' f' st = Some r"
  proof (cases a)
    case (Inl e)
    with b c1 c2 r1 show ?thesis by (simp add: bindc_def)
  next
    case (Inr x)
    with b c1 r1 have "f x s1 = Some r" by (simp add: bindc_def)
    with f [of x] have "f' x s1 = Some r" by (rule extendsD)
    with c2 r1 Inr show ?thesis by (simp add: bindc_def)
  qed
qed

lemma extends_render_attr:
  assumes "\<And>mref. extends (rd mref seen) (rd' mref seen)"
  shows "extends (render_attr env self rd base seen attr t)
                 (render_attr env self rd' base seen attr t)"
  unfolding extends_def
proof (intro allI impI)
  fix st r
  assume a: "render_attr env self rd base seen attr t st = Some r"
  let ?href = "strip (case map_of (attrs t) attr of None \<Rightarrow> [] | Some v \<Rightarrow> v)"
  show "render_attr env self rd' base seen attr t st = Some r"
  proof (cases "?href = []")
    case True
    with a show ?thesis by (simp add: render_attr_def)
  next
    case False
    show ?thesis
    proof (cases "lookup_ref env self base ?href")
      case (Inl e)
      with a False show ?thesis by (simp add: render_attr_def)
    next
      case (Inr mref)
      let ?st = "st\<lparr>stdout := stdout st @
                   [name t @ ''.'' @ attr @ ''='' @ ?href @ ''; '' @
                    (if mref \<noteq> None then ''True'' else ''False'')]\<rparr>"
      from a False Inr obtain r1 where r1: "rd mref seen ?st = Some r1"
        by (cases "rd mref seen ?st") (auto simp: render_attr_def Let_def)
      with assms [of mref] have "rd' mref seen ?st = Some r1" by (rule extendsD)
      with a r1 False Inr show ?thesis by (simp add: render_attr_def Let_def)
    qed
  qed
qed

lemma extends_render_attrs:
  assumes "\<And>mref. extends (rd mref seen) (rd' mref seen)"
  shows "extends (render_attrs env self rd base seen as t)
                 (render_attrs env self rd' base seen as t)"
proof (induction as arbitrary: t)
  case Nil
  show ?case by (simp add: extends_def)
next
  case (Cons a as)
  show ?case
    unfolding render_attrs_bindc
    by (rule extends_bindc [OF extends_render_attr [where rd = rd and rd' = rd' and seen = seen, OF assms] Cons.IH])
qed

lemma extends_render_nodes:
  assumes "\<And>mref. extends (rd mref seen) (rd' mref seen)"
  shows "extends (render_nodes env self rd base seen doc)
                 (render_nodes env self rd' base seen doc)"
proof (induction "size_list size doc" arbitrary: doc rule: less_induct)
  case less
  show ?case
  proof (cases doc)
    case Nil
    then show ?thesis by (simp add: extends_def)
  next
    case (Cons n ns)
    have ns: "extends (render_nodes env self rd base seen ns)
                      (render_nodes env self rd' base seen ns)"
      by (rule less) (simp add: Cons)
    show ?thesis
    proof (cases n)
      case (NavigableString s)
      show ?thesis
        unfolding Cons NavigableString render_nodes_string_bindc
        by (rule extends_bindc [OF ns extends_refl])
    next
      case (Tag t cs)
      have cs: "extends (render_nodes env self rd base seen cs)
                        (render_nodes env self rd' base seen cs)"
        by (rule less) (simp add: Cons Tag)
      show ?thesis
        unfolding Cons Tag render_nodes_tag_bindc
        by (intro extends_bindc cs ns extends_refl
              extends_render_attrs [where rd = rd and rd' = rd' and seen = seen, OF assms])
    qed
  qed
qed

lemma extends_Mapped_render:
  assumes "\<And>mref. extends (rd mref seen) (rd' mref seen)"
  shows "extends (Mapped_render env self rd arg seen) (Mapped_render env self rd' arg seen)"
  unfolding extends_def
proof (intro allI impI)
  fix st r
  assume a: "Mapped_render env self rd arg seen st = Some r"
  have n: "render_nodes env self rd base seen doc s = Some x \<Longrightarrow>
           render_nodes env self rd' base seen doc s = Some x" for base doc s x
    by (rule extendsD [OF extends_render_nodes [where rd = rd and rd' = rd' and seen = seen, OF assms]])
  have n': "render_nodes env self rd' base seen doc s = None \<Longrightarrow>
            render_nodes env self rd base seen doc s = None" for base doc s
    using n [of base doc s] by (cases "render_nodes env self rd base seen doc s") auto
  from a show "Mapped_render env self rd' arg seen st = Some r"
    unfolding Mapped_render_def Let_def
    by (auto split: render_arg.splits prod.splits sum.splits if_splits option.splits data.splits
             dest: n n')
qed

lemma extends_DataDirectory:
  assumes "\<And>arg seen. extends (rnd arg seen) (rnd' arg seen)"
  shows "extends (DataDirectory_render_data env rnd mref seen)
                 (DataDirectory_render_data env rnd' mref seen)"
  unfolding extends_def
proof (intro allI impI)
  fix st r
  assume a: "DataDirectory_render_data env rnd mref seen st = Some r"
  have n: "rnd arg sn s = Some x \<Longrightarrow> rnd' arg sn s = Some x" for arg sn s x
    by (rule extendsD [OF assms])
  have n': "rnd' arg sn s = None \<Longrightarrow> rnd arg sn s = None" for arg sn s
    using n [of arg sn s] by (cases "rnd arg sn s") auto
  from a show "DataDirectory_render_data env rnd' mref seen st = Some r"
    unfolding DataDirectory_render_data_def Let_def
    by (auto split: prod.splits sum.splits if_splits option.splits dest: n n')
qed

lemma extends_render_data:
  assumes "\<And>arg seen. extends (rnd arg seen) (rnd' arg seen)"
  shows "extends (render_data v env rnd mref seen) (render_data v env rnd' mref seen)"
proof (cases v)
  case MappedInline
  then show ?thesis by (simp add: render_data_def InlineData_render_data_def extends_def)
next
  case MappedRelative
  then show ?thesis
    using extends_DataDirectory [where rnd = rnd and rnd' = rnd', OF assms]
    by (simp add: render_data_def)
qed

lemma extends_render_Suc:
  "extends (render v env self k arg seen) (render v env self (Suc k) arg seen)"
proof (induction k arbitrary: arg seen)
  case 0
  show ?case by (simp add: extends_def)
next
  case (Suc k)
  have "extends (render_data v env (render v env self k) mref seen)
                (render_data v env (render v env self (Suc k)) mref seen)" for mref
    by (rule extends_render_data) (rule Suc.IH)
  from extends_Mapped_render [where rd = "render_data v env (render v env self k)"
      and rd' = "render_data v env (render v env self (Suc k))" and seen = seen, OF this]
  show ?case by simp
qed

lemma render_more:
  "render v env self k arg seen st = Some r \<Longrightarrow>
   render v env self (k + j) arg seen st = Some r"
proof (induction j)
  case 0
  then show ?case by simp
next
  case (Suc j)
  then have "render v env self (k + j) arg seen st = Some r" .
  with extends_render_Suc [of v env self "k + j" arg seen]
  have "render v env self (Suc (k + j)) arg seen st = Some r" by (rule extendsD)
  then show ?case by simp
qed

subsection \<open>A \<^verbatim>\<open>base\<close> element in a part without a location\<close>

lemma effective_base_without_location:
  assumes "find_all ''base'' doc = b # bs"
    and "strip (case content_location p of None \<Rightarrow> [] | Some l \<Rightarrow> l) = []"
  shows "effective_base env doc p = Inr (PyTag b)"
  using assms by (simp add: effective_base_def Let_def urljoin_def truthy_def)

lemma lookup_ref_tag_base:
  assumes "urlsplit env href = Inr sp" and "scheme sp \<noteq> ''cid''" and "href \<noteq> []"
  shows "lookup_ref env self (PyTag b) href = Inl TypeError"
  using assms by (simp add: lookup_ref_def urljoin_def truthy_def)

section \<open>The claims\<close>

subsection \<open>The examples, evaluated\<close>

lemma ex_sha256_length: "length (ex_sha256 b) = 32"
  by (simp add: ex_sha256_def)

lemma ex_env_sha256_length: "\<forall>b. length (sha256 ex_env b) = 32"
  by (simp add: ex_env_def ex_sha256_length)

lemma ex_Mapped_init: "Mapped_init ex_env ex_walk = Inr ex_mapped"
  by (simp add: Mapped_init_def ex_walk_def ex_mapped_def index_part_def Let_def
      ex_container_def ex_root_def ex_image_def ex_decoy_def urljoin_def truthy_def
      strip_chars_def strip_where_def)

lemma ex_cycle_Mapped_init: "Mapped_init ex_env ex_cycle_walk = Inr ex_cycle"
  by (simp add: Mapped_init_def ex_cycle_walk_def ex_cycle_def index_part_def Let_def
      ex_a_def ex_b_def urljoin_def truthy_def)

subsection \<open>C1\<close>

text \<open>
  C1 says that the inline \<^verbatim>\<open>render_data\<close>, on a part that is not null and whose digest
  is not in the guard set, renders the part with the guard set extended by its digest
  and returns a data URI. The code does not: on every such part it raises
  \<^verbatim>\<open>NameError\<close>, from the unbound name \<^verbatim>\<open>ph\<close> of line 102, before it calls
  \<^verbatim>\<open>render\<close>.
\<close>

theorem inline_render_data_raises_NameError:
  assumes "get_payload p = PBytes b" and "digest_of env b \<notin> seen"
  shows "InlineData_render_data env rnd (Some p) seen st =
           Some (Inl NameError, snd (find_extension env (effective_mime env p) st))"
  using assms by (simp add: InlineData_render_data_def PartHelper_bytes)

text \<open>The image of the example, with an empty guard set; and the HTML part that shows
  it, rendered by \<^verbatim>\<open>MappedInline\<close>.\<close>

theorem inline_render_data_raises_NameError_witness:
  "get_payload ex_image = PBytes ex_jpeg \<and> digest_of ex_env ex_jpeg \<notin> {} \<and>
   map_option fst (InlineData_render_data ex_env (render MappedInline ex_env ex_mapped 1)
       (Some ex_image) {} (init_state Map.empty)) = Some (Inl NameError) \<and>
   map_option fst (render MappedInline ex_env ex_mapped 2 (Part ex_root) {}
       (init_state Map.empty)) = Some (Inl NameError)"
proof -
  have p: "get_payload ex_image = PBytes ex_jpeg" by (simp add: ex_image_def)
  have d: "digest_of ex_env ex_jpeg \<notin> {}" by simp
  have r: "map_option fst (render MappedInline ex_env ex_mapped 2 (Part ex_root) {}
       (init_state Map.empty)) = Some (Inl NameError)"
    by code_simp
  from inline_render_data_raises_NameError [OF p d] p r show ?thesis by simp
qed

subsection \<open>C2\<close>




subsection \<open>C3\<close>

text \<open>
  C3. Rendering terminates, on a message with a cycle as on any other: on the index
  that \<^verbatim>\<open>Mapped.__init__\<close> builds from the parts of a message, \<^verbatim>\<open>render\<close> returns (a
  result or an exception) for every part and every guard set, once it may nest more
  calls than the message has parts, and a deeper recursion returns the same. Each nested
  call adds to the guard set the digest, not yet in it, of a part of the index.
\<close>

theorem render_terminates:
  assumes "Mapped_init env walk = Inr self" and "length walk < k"
  shows "\<exists>r. render v env self k arg seen st = Some r \<and>
             render v env self (k + j) arg seen st = Some r"
proof -
  from render_returns [OF assms] obtain r where "render v env self k arg seen st = Some r"
    by blast
  with render_more [of v env self k arg seen st r j] show ?thesis by simp
qed

text \<open>Two parts that refer to each other, and a part that refers to itself.\<close>

theorem render_terminates_witness:
  "Mapped_init ex_env ex_cycle_walk = Inr ex_cycle \<and> length ex_cycle_walk < 3 \<and>
   (\<exists>r. render MappedRelative ex_env ex_cycle 3 (Part ex_a) {} (init_state Map.empty) = Some r) \<and>
   map_option fst (render MappedRelative ex_env ex_cycle 3 (Part ex_a) {} (init_state Map.empty)) =
     Some (Inr (PBytes (utf8_encode
        (''<a href='' @ [CHR 0x22] @ ''blob=zu60Ge7QOFBAh0aMJVd9mNgKBu_N4bX26kaBUsv4wXI=.html'' @
         [CHR 0x22] @ ''>B</a>'')), ''text/html;charset=utf8'')) \<and>
   Mapped_init ex_env [ex_s] = Inr ex_selfref \<and> length [ex_s] < 2 \<and>
   (\<exists>r. render MappedRelative ex_env ex_selfref 2 (Part ex_s) {} (init_state Map.empty) = Some r) \<and>
   map_option (\<lambda>(r, st). opened st)
     (render MappedRelative ex_env ex_selfref 2 (Part ex_s) {} (init_state Map.empty)) =
     Some [''blob=xfEDwpax2mcWMuUWempeaFWLhs2gqfinF8SKe0psM-M=.html'']"
proof -
  have l: "length ex_cycle_walk < 3" by (simp add: ex_cycle_walk_def)
  have v: "map_option fst (render MappedRelative ex_env ex_cycle 3 (Part ex_a) {} (init_state Map.empty)) =
     Some (Inr (PBytes (utf8_encode
        (''<a href='' @ [CHR 0x22] @ ''blob=zu60Ge7QOFBAh0aMJVd9mNgKBu_N4bX26kaBUsv4wXI=.html'' @
         [CHR 0x22] @ ''>B</a>'')), ''text/html;charset=utf8''))"
    by code_simp
  have i: "Mapped_init ex_env [ex_s] = Inr ex_selfref"
    by (simp add: Mapped_init_def ex_selfref_def index_part_def Let_def ex_s_def urljoin_def
        truthy_def)
  have l2: "length [ex_s] < 2" by simp
  have v2: "map_option (\<lambda>(r, st). opened st)
     (render MappedRelative ex_env ex_selfref 2 (Part ex_s) {} (init_state Map.empty)) =
     Some [''blob=xfEDwpax2mcWMuUWempeaFWLhs2gqfinF8SKe0psM-M=.html'']"
    by code_simp
  from render_terminates [OF ex_cycle_Mapped_init l, of MappedRelative "Part ex_a" "{}"
      "init_state Map.empty" 0]
  have 1: "\<exists>r. render MappedRelative ex_env ex_cycle 3 (Part ex_a) {} (init_state Map.empty) = Some r"
    by auto
  from render_terminates [OF i l2, of MappedRelative "Part ex_s" "{}" "init_state Map.empty" 0]
  have 2: "\<exists>r. render MappedRelative ex_env ex_selfref 2 (Part ex_s) {} (init_state Map.empty) = Some r"
    by auto
  from ex_cycle_Mapped_init l v i l2 v2 1 2 show ?thesis by blast
qed

subsection \<open>C4\<close>

text \<open>
  C4. For an attribute whose trimmed value \<open>href\<close> is not empty and parses as a URL:
  when the scheme is \<^verbatim>\<open>cid\<close>, the part is the entry of \<^verbatim>\<open>by_id\<close> under the path of the
  URL, whatever \<^verbatim>\<open>by_loc\<close> holds; otherwise it is the entry of \<^verbatim>\<open>by_loc\<close> under \<open>href\<close>
  joined against the effective base, whatever \<^verbatim>\<open>by_id\<close> holds. That part is the one
  \<^verbatim>\<open>render\<close> hands to \<^verbatim>\<open>render_data\<close> for the attribute.
\<close>

theorem reference_resolution:
  assumes "strip (case map_of (attrs t) attr of None \<Rightarrow> [] | Some v \<Rightarrow> v) = href"
    and "href \<noteq> []"
    and "urlsplit env href = Inr sp"
  shows "(scheme sp = ''cid'' \<longrightarrow>
            lookup_ref env self base href = Inr (by_id self (path sp)) \<and>
            render_attr env (self\<lparr>by_loc := L\<rparr>) rd base seen attr t st =
              render_attr env self rd base seen attr t st) \<and>
         (scheme sp \<noteq> ''cid'' \<longrightarrow>
            lookup_ref env self base href =
              (case urljoin env base (PyStr href) of
                 Inl e \<Rightarrow> Inl e
               | Inr u \<Rightarrow> Inr (by_loc self u)) \<and>
            render_attr env (self\<lparr>by_id := I\<rparr>) rd base seen attr t st =
              render_attr env self rd base seen attr t st) \<and>
         render_attr env self rd base seen attr t st =
           (case lookup_ref env self base href of
              Inl e \<Rightarrow> Some (Inl e, st)
            | Inr mref \<Rightarrow>
                (case rd mref seen
                        (st\<lparr>stdout := stdout st @
                           [name t @ ''.'' @ attr @ ''='' @ href @ ''; '' @
                            (if mref \<noteq> None then ''True'' else ''False'')]\<rparr>) of
                   None \<Rightarrow> None
                 | Some (Inl e, st') \<Rightarrow> Some (Inl e, st')
                 | Some (Inr None, st') \<Rightarrow> Some (Inr t, st')
                 | Some (Inr (Some href'), st') \<Rightarrow>
                     Some (Inr (t\<lparr>attrs := AList.update attr href' (attrs t)\<rparr>), st')))"
proof (intro conjI impI)
  assume "scheme sp = ''cid''"
  with assms(3) show "lookup_ref env self base href = Inr (by_id self (path sp))"
    by (simp add: lookup_ref_def)
  from assms(3) \<open>scheme sp = ''cid''\<close>
  have "lookup_ref env (self\<lparr>by_loc := L\<rparr>) base href = lookup_ref env self base href"
    by (simp add: lookup_ref_def)
  then show "render_attr env (self\<lparr>by_loc := L\<rparr>) rd base seen attr t st =
          render_attr env self rd base seen attr t st"
    by (simp only: render_attr_def Let_def assms(1))
next
  assume "scheme sp \<noteq> ''cid''"
  with assms(3) show "lookup_ref env self base href =
      (case urljoin env base (PyStr href) of Inl e \<Rightarrow> Inl e | Inr u \<Rightarrow> Inr (by_loc self u))"
    by (simp add: lookup_ref_def)
  from assms(3) \<open>scheme sp \<noteq> ''cid''\<close>
  have "lookup_ref env (self\<lparr>by_id := I\<rparr>) base href = lookup_ref env self base href"
    by (simp add: lookup_ref_def split: sum.split)
  then show "render_attr env (self\<lparr>by_id := I\<rparr>) rd base seen attr t st =
          render_attr env self rd base seen attr t st"
    by (simp only: render_attr_def Let_def assms(1))
next
  from assms(1,2)
  show "render_attr env self rd base seen attr t st =
           (case lookup_ref env self base href of
              Inl e \<Rightarrow> Some (Inl e, st)
            | Inr mref \<Rightarrow>
                (case rd mref seen
                        (st\<lparr>stdout := stdout st @
                           [name t @ ''.'' @ attr @ ''='' @ href @ ''; '' @
                            (if mref \<noteq> None then ''True'' else ''False'')]\<rparr>) of
                   None \<Rightarrow> None
                 | Some (Inl e, st') \<Rightarrow> Some (Inl e, st')
                 | Some (Inr None, st') \<Rightarrow> Some (Inr t, st')
                 | Some (Inr (Some href'), st') \<Rightarrow>
                     Some (Inr (t\<lparr>attrs := AList.update attr href' (attrs t)\<rparr>), st')))"
    by (cases "lookup_ref env self base href") (simp_all add: render_attr_def Let_def)
qed

text \<open>
  The image by its content ID, where \<^verbatim>\<open>by_loc\<close> has an entry under the literal string
  \<^verbatim>\<open>cid:image1\<close>; and a link by location between the two parts of the cycle.
\<close>

theorem reference_resolution_witness:
  "urlsplit ex_env ''cid:image1'' = Inr \<lparr>scheme = ''cid'', path = ''image1''\<rparr> \<and>
   by_loc ex_mapped (PyStr ''cid:image1'') = Some ex_decoy \<and>
   lookup_ref ex_env ex_mapped (PyStr []) ''cid:image1'' = Inr (by_id ex_mapped ''image1'') \<and>
   by_id ex_mapped ''image1'' = Some ex_image \<and>
   urlsplit ex_env ''b.html'' = Inr \<lparr>scheme = [], path = ''b.html''\<rparr> \<and>
   lookup_ref ex_env ex_cycle (PyStr ''http://example.com/a.html'') ''b.html'' =
     Inr (by_loc ex_cycle (PyStr ''http://example.com/b.html'')) \<and>
   by_loc ex_cycle (PyStr ''http://example.com/b.html'') = Some ex_b"
proof -
  let ?img = "\<lparr>name = ''img'', attrs = [(''src'', ''cid:image1'')]\<rparr>"
  let ?a = "\<lparr>name = ''a'', attrs = [(''href'', ''b.html'')]\<rparr>"
  have h1: "strip (case map_of (attrs ?img) ''src'' of None \<Rightarrow> [] | Some v \<Rightarrow> v) = ''cid:image1''"
    by code_simp
  have h2: "strip (case map_of (attrs ?a) ''href'' of None \<Rightarrow> [] | Some v \<Rightarrow> v) = ''b.html''"
    by code_simp
  have u1: "urlsplit ex_env ''cid:image1'' = Inr \<lparr>scheme = ''cid'', path = ''image1''\<rparr>"
    by (simp add: ex_env_def ex_urlsplit_def)
  have u2: "urlsplit ex_env ''b.html'' = Inr \<lparr>scheme = [], path = ''b.html''\<rparr>"
    by (simp add: ex_env_def ex_urlsplit_def)
  have j: "urljoin ex_env (PyStr ''http://example.com/a.html'') (PyStr ''b.html'') =
             Inr (PyStr ''http://example.com/b.html'')"
    by (simp add: urljoin_def truthy_def ex_env_def ex_urljoin_str_def)
  have d: "by_loc ex_mapped (PyStr ''cid:image1'') = Some ex_decoy"
    by (simp add: ex_mapped_def)
  have i: "by_id ex_mapped ''image1'' = Some ex_image"
    by (simp add: ex_mapped_def)
  have b: "by_loc ex_cycle (PyStr ''http://example.com/b.html'') = Some ex_b"
    by (simp add: ex_cycle_def)
  from reference_resolution [OF h1 _ u1, of ex_mapped "PyStr []"]
  have 1: "lookup_ref ex_env ex_mapped (PyStr []) ''cid:image1'' = Inr (by_id ex_mapped ''image1'')"
    by simp
  from reference_resolution [OF h2 _ u2, of ex_cycle "PyStr ''http://example.com/a.html''"]
  have 2: "lookup_ref ex_env ex_cycle (PyStr ''http://example.com/a.html'') ''b.html'' =
     Inr (by_loc ex_cycle (PyStr ''http://example.com/b.html''))"
    by (simp add: j)
  from u1 u2 d i b 1 2 show ?thesis by simp
qed

subsection \<open>C5\<close>

text \<open>
  C5 says that the effective base of an HTML part is the target of the document's
  \<^verbatim>\<open>base\<close> element, when it has one, joined against the location of the part. The code
  joins the element itself, not its \<^verbatim>\<open>href\<close>: when the part has a location, \<^verbatim>\<open>urljoin\<close>
  raises \<^verbatim>\<open>TypeError\<close> on a \<^verbatim>\<open>str\<close> and a \<^verbatim>\<open>Tag\<close>, and so does \<^verbatim>\<open>render\<close>.
\<close>

theorem base_element_raises_TypeError:
  assumes "find_all ''base'' doc \<noteq> []"
    and "strip (case content_location p of None \<Rightarrow> [] | Some l \<Rightarrow> l) \<noteq> []"
    and "content_type h = ''text/html''" and "part h = p"
    and "BeautifulSoup env (payload h) = Inr doc"
  shows "effective_base env doc p = Inl TypeError \<and>
         render v env self (Suc k) (Helper h) seen st = Some (Inl TypeError, st)"
proof -
  from assms(1) obtain b bs where b: "find_all ''base'' doc = b # bs"
    by (cases "find_all ''base'' doc") auto
  have e: "effective_base env doc p = Inl TypeError"
    using assms(2) by (simp add: effective_base_def Let_def b urljoin_def truthy_def)
  with assms(3,4,5) show ?thesis by (simp add: Mapped_render_def)
qed

text \<open>The HTML part of the examples that has a \<^verbatim>\<open>base\<close> element and a location.\<close>

theorem base_element_raises_TypeError_witness:
  "find_all ''base'' [Tag \<lparr>name = ''base'', attrs = [(''href'', ''http://cdn.example.com/'')]\<rparr> [],
                      Tag \<lparr>name = ''img'', attrs = [(''src'', ''logo.png'')]\<rparr> []] \<noteq> [] \<and>
   strip (case content_location ex_based of None \<Rightarrow> [] | Some l \<Rightarrow> l) \<noteq> [] \<and>
   effective_mime ex_env ex_based = ''text/html'' \<and>
   BeautifulSoup ex_env (get_payload ex_based) =
     Inr [Tag \<lparr>name = ''base'', attrs = [(''href'', ''http://cdn.example.com/'')]\<rparr> [],
          Tag \<lparr>name = ''img'', attrs = [(''src'', ''logo.png'')]\<rparr> []] \<and>
   map_option fst (render MappedInline ex_env ex_mapped 1 (Part ex_based) {}
       (init_state Map.empty)) = Some (Inl TypeError) \<and>
   map_option fst (render MappedRelative ex_env ex_mapped 1 (Part ex_based) {}
       (init_state Map.empty)) = Some (Inl TypeError)"
proof -
  let ?doc = "[Tag \<lparr>name = ''base'', attrs = [(''href'', ''http://cdn.example.com/'')]\<rparr> [],
               Tag \<lparr>name = ''img'', attrs = [(''src'', ''logo.png'')]\<rparr> []]"
  let ?h = "\<lparr>part = ex_based, content_type = effective_mime ex_env ex_based,
             payload = PBytes ex_based_html,
             extension = fst (find_extension ex_env (effective_mime ex_env ex_based)
                                (init_state Map.empty)),
             digest = digest_of ex_env ex_based_html\<rparr>"
  let ?st = "snd (find_extension ex_env (effective_mime ex_env ex_based) (init_state Map.empty))"
  have b: "find_all ''base'' ?doc \<noteq> []" by code_simp
  have l: "strip (case content_location ex_based of None \<Rightarrow> [] | Some l \<Rightarrow> l) \<noteq> []"
    by code_simp
  have m: "effective_mime ex_env ex_based = ''text/html''" by code_simp
  have pl: "get_payload ex_based = PBytes ex_based_html" by (simp add: ex_based_def)
  have s: "BeautifulSoup ex_env (get_payload ex_based) = Inr ?doc" by code_simp
  have ph: "PartHelper ex_env ex_based (init_state Map.empty) = (Inr ?h, ?st)"
    by (rule PartHelper_bytes [OF pl])
  have r: "render v ex_env ex_mapped 1 (Part ex_based) {} (init_state Map.empty) =
             render v ex_env ex_mapped 1 (Helper ?h) {} ?st" for v
    by (simp add: Mapped_render_def ph)
  from base_element_raises_TypeError [OF b l, of ?h ex_env _ ex_mapped 0 "{}" ?st]
  have "render v ex_env ex_mapped 1 (Helper ?h) {} ?st = Some (Inl TypeError, ?st)" for v
    using m s pl by simp
  with r b l m s show ?thesis by simp
qed

subsection \<open>C6\<close>




subsection \<open>C8\<close>

text \<open>
  C8. For a part, or a helper, whose effective content type is not \<^verbatim>\<open>text/html\<close>, the
  result of \<^verbatim>\<open>render\<close>, and the state it leaves, are the same for every two guard sets.
\<close>

theorem render_non_html_ignores_seen:
  assumes "case arg of Helper h \<Rightarrow> content_type h \<noteq> ''text/html''
           | Part p \<Rightarrow> effective_mime env p \<noteq> ''text/html''"
  shows "render v env self k arg seen st = render v env self k arg seen' st"
  using assms by (rule render_plain_seen)

text \<open>The image of the example, with two guard sets, one of which holds its digest.\<close>

theorem render_non_html_ignores_seen_witness:
  "effective_mime ex_env ex_image \<noteq> ''text/html'' \<and>
   render MappedRelative ex_env ex_mapped 1 (Part ex_image) {} (init_state Map.empty) =
   render MappedRelative ex_env ex_mapped 1 (Part ex_image) {digest_of ex_env ex_jpeg}
     (init_state Map.empty)"
proof -
  have m: "effective_mime ex_env ex_image \<noteq> ''text/html''" by code_simp
  then have c: "case Part ex_image of Helper h \<Rightarrow> content_type h \<noteq> ''text/html''
             | Part p \<Rightarrow> effective_mime ex_env p \<noteq> ''text/html''"
    by simp
  show ?thesis
    using m by (intro conjI) (assumption, rule render_non_html_ignores_seen [OF c])
qed

subsection \<open>C9\<close>

text \<open>
  C9. Only the content type \<^verbatim>\<open>text/html\<close>, compared as a string, is parsed. A helper of
  any other content type is rendered by the last two branches, to the encoded text or to
  the payload as it is: the parser is not called (its failure is raised for
  \<^verbatim>\<open>text/html\<close> only), no reference is substituted, and the state is left as it was.
\<close>

theorem only_text_html_is_parsed:
  assumes "content_type h \<noteq> ''text/html''"
  shows "render v env self (Suc k) (Helper h) seen st =
           Some (Inr (case payload h of
                        PStr s \<Rightarrow> (PBytes (utf8_encode s), content_type h @ '';charset=utf8'')
                      | PBytes b \<Rightarrow> (PBytes b, content_type h)
                      | PNone \<Rightarrow> (PNone, content_type h)), st) \<and>
         render v (env\<lparr>BeautifulSoup := parser, encode_doc := encoder\<rparr>) self (Suc k)
             (Helper h) seen st =
           render v env self (Suc k) (Helper h) seen st \<and>
         render v (env\<lparr>BeautifulSoup := \<lambda>d. Inl ValueError\<rparr>) self (Suc k)
             (Helper (h\<lparr>content_type := ''text/html''\<rparr>)) seen st =
           Some (Inl ValueError, st)"
  using assms by (simp add: Mapped_render_Helper_plain) (simp add: Mapped_render_def)

text \<open>A helper of type \<^verbatim>\<open>application/xhtml+xml\<close> and one of type \<^verbatim>\<open>Text/HTML\<close>, both
  with the payload of the HTML part of the example.\<close>

theorem only_text_html_is_parsed_witness:
  "''application/xhtml+xml'' \<noteq> ''text/html'' \<and> ''Text/HTML'' \<noteq> ''text/html'' \<and>
   render MappedRelative ex_env ex_mapped 1
     (Helper \<lparr>part = ex_root, content_type = ''application/xhtml+xml'',
              payload = PBytes ex_root_html, extension = ''.xht'',
              digest = digest_of ex_env ex_root_html\<rparr>) {} (init_state Map.empty) =
     Some (Inr (PBytes ex_root_html, ''application/xhtml+xml''), init_state Map.empty) \<and>
   render MappedRelative ex_env ex_mapped 1
     (Helper \<lparr>part = ex_root, content_type = ''Text/HTML'',
              payload = PBytes ex_root_html, extension = ''.html'',
              digest = digest_of ex_env ex_root_html\<rparr>) {} (init_state Map.empty) =
     Some (Inr (PBytes ex_root_html, ''Text/HTML''), init_state Map.empty)"
proof -
  let ?x = "\<lparr>part = ex_root, content_type = ''application/xhtml+xml'',
              payload = PBytes ex_root_html, extension = ''.xht'',
              digest = digest_of ex_env ex_root_html\<rparr>"
  let ?t = "\<lparr>part = ex_root, content_type = ''Text/HTML'',
              payload = PBytes ex_root_html, extension = ''.html'',
              digest = digest_of ex_env ex_root_html\<rparr>"
  have x: "content_type ?x \<noteq> ''text/html''" by simp
  have t: "content_type ?t \<noteq> ''text/html''" by simp
  from only_text_html_is_parsed [OF x, of MappedRelative ex_env ex_mapped 0 "{}" "init_state Map.empty"]
    only_text_html_is_parsed [OF t, of MappedRelative ex_env ex_mapped 0 "{}" "init_state Map.empty"]
  show ?thesis by simp
qed

subsection \<open>C7\<close>

text \<open>
  C7. In the directory variant, with digests of 32 bytes: when the digest of a part is
  in the guard set, or the file \<^verbatim>\<open>blob=<digest><extension>\<close> exists, \<^verbatim>\<open>render_data\<close>
  returns that path and neither renders the part nor writes a file. And however many
  references a rendering follows, it opens for writing only files that did not exist
  when it started, each of them once: the files that existed keep their contents, and no
  path is written twice.
\<close>

theorem blob_written_at_most_once:
  fixes st :: state and env :: env and p :: part and b :: bytes
  defines "fname \<equiv>
    ''blob='' @ digest_of env b @ fst (find_extension env (effective_mime env p) st)"
  assumes "\<forall>b. length (sha256 env b) = 32"
  shows "(get_payload p = PBytes b \<and> (digest_of env b \<in> seen \<or> files st fname \<noteq> None) \<longrightarrow>
            DataDirectory_render_data env rnd (Some p) seen st =
              Some (Inr (Some fname), snd (find_extension env (effective_mime env p) st)) \<and>
            files (snd (find_extension env (effective_mime env p) st)) = files st \<and>
            opened (snd (find_extension env (effective_mime env p) st)) = opened st) \<and>
         (render MappedRelative env self k arg seen st = Some (r, st') \<longrightarrow>
            (\<exists>new. opened st' = opened st @ new \<and> distinct new \<and>
               (\<forall>f \<in> set new. files st f = None \<and> files st' f \<noteq> None) \<and>
               (\<forall>f. f \<notin> set new \<longrightarrow> files st' f = files st f)))"
proof (intro conjI impI)
  let ?st = "snd (find_extension env (effective_mime env p) st)"
  let ?h = "\<lparr>part = p, content_type = effective_mime env p, payload = PBytes b,
             extension = fst (find_extension env (effective_mime env p) st),
             digest = digest_of env b\<rparr>"
  assume a: "get_payload p = PBytes b \<and> (digest_of env b \<in> seen \<or> files st fname \<noteq> None)"
  then have ph: "PartHelper env p st = (Inr ?h, ?st)" by (simp add: PartHelper_bytes)
  from a consider "digest ?h \<in> seen" | "files ?st (''blob='' @ digest ?h @ extension ?h) \<noteq> None"
    by (auto simp: fname_def)
  then show "DataDirectory_render_data env rnd (Some p) seen st = Some (Inr (Some fname), ?st)"
  proof cases
    case 1
    from DataDirectory_seen [OF ph 1] show ?thesis by (simp add: fname_def)
  next
    case 2
    from DataDirectory_exists [OF ph 2] show ?thesis by (simp add: fname_def)
  qed
  show "files ?st = files st" by simp
  show "opened ?st = opened st" by simp
next
  assume "render MappedRelative env self k arg seen st = Some (r, st')"
  with render_fresh_writes [OF assms(2), of seen st MappedRelative self k arg]
  have "fresh_writes seen st st'" by (simp add: sat_def)
  then obtain new where "opened st' = opened st @ new" and "distinct new"
    and "\<forall>f \<in> set new. files st f = None \<and> files st' f \<noteq> None \<and>
           (\<exists>d e. f = ''blob='' @ d @ e \<and> length d = 44 \<and> d \<notin> seen)"
    and "\<forall>f. f \<notin> set new \<longrightarrow> files st' f = files st f"
    unfolding fresh_writes_def by blast
  then show "\<exists>new. opened st' = opened st @ new \<and> distinct new \<and>
               (\<forall>f \<in> set new. files st f = None \<and> files st' f \<noteq> None) \<and>
               (\<forall>f. f \<notin> set new \<longrightarrow> files st' f = files st f)"
    by blast
qed

text \<open>
  The two parts that refer to each other, rendered into an empty directory: each blob is
  written once, the blob of the part rendered first being referred to three times.
  Then the image of the example, with its blob in the directory.
\<close>

theorem blob_written_at_most_once_witness:
  "(\<forall>b. length (sha256 ex_env b) = 32) \<and>
   (\<exists>r st' new.
      render MappedRelative ex_env ex_cycle 3 (Part ex_a) {} (init_state Map.empty) =
        Some (r, st') \<and>
      stdout st' = [''a.href=b.html; True'', ''a.href=a.html; True'', ''a.href=b.html; True''] \<and>
      opened st' = [] @ new \<and>
      new = [''blob=7dAT6XZ4zMeOu1qrvuWISSxuK87cW0G7oDNEsrUPJG4=.html'',
             ''blob=zu60Ge7QOFBAh0aMJVd9mNgKBu_N4bX26kaBUsv4wXI=.html''] \<and>
      distinct new \<and>
      files st' ''blob=7dAT6XZ4zMeOu1qrvuWISSxuK87cW0G7oDNEsrUPJG4=.html'' \<noteq> None \<and>
      files st' ''blob=zu60Ge7QOFBAh0aMJVd9mNgKBu_N4bX26kaBUsv4wXI=.html'' \<noteq> None \<and>
      files st' ''other'' = None) \<and>
   get_payload ex_image = PBytes ex_jpeg \<and>
   map_option fst
     (DataDirectory_render_data ex_env (render MappedRelative ex_env ex_mapped 1)
        (Some ex_image) {}
        (init_state [''blob=uk8lvxa6S-a8fTJ2-v62f56zxd8EK8OkBeGvFbkh7tc=.jpg'' \<mapsto> ex_jpeg])) =
     Some (Inr (Some ''blob=uk8lvxa6S-a8fTJ2-v62f56zxd8EK8OkBeGvFbkh7tc=.jpg''))"
proof -
  let ?run = "render MappedRelative ex_env ex_cycle 3 (Part ex_a) {} (init_state Map.empty)"
  let ?new = "[''blob=7dAT6XZ4zMeOu1qrvuWISSxuK87cW0G7oDNEsrUPJG4=.html'',
               ''blob=zu60Ge7QOFBAh0aMJVd9mNgKBu_N4bX26kaBUsv4wXI=.html'']"
  let ?fs = "[''blob=uk8lvxa6S-a8fTJ2-v62f56zxd8EK8OkBeGvFbkh7tc=.jpg'' \<mapsto> ex_jpeg]"
  have ev: "map_option (\<lambda>(r, st). (stdout st, opened st)) ?run =
              Some ([''a.href=b.html; True'', ''a.href=a.html; True'', ''a.href=b.html; True''],
                    ?new)"
    by code_simp
  then obtain r st' where run: "?run = Some (r, st')"
    and out: "stdout st' = [''a.href=b.html; True'', ''a.href=a.html; True'', ''a.href=b.html; True'']"
    and op: "opened st' = ?new"
    by (cases ?run) auto
  note T = blob_written_at_most_once [OF ex_env_sha256_length]
  from T [THEN conjunct2, rule_format, OF run]
  obtain new where n: "opened st' = opened (init_state Map.empty) @ new" and d: "distinct new"
    and f: "\<forall>f \<in> set new. files (init_state Map.empty) f = None \<and> files st' f \<noteq> None"
    and k: "\<forall>f. f \<notin> set new \<longrightarrow> files st' f = files (init_state Map.empty) f"
    by blast
  from n op have new: "new = ?new" by (simp add: init_state_def)
  have 1: "\<exists>r st' new. ?run = Some (r, st') \<and>
      stdout st' = [''a.href=b.html; True'', ''a.href=a.html; True'', ''a.href=b.html; True''] \<and>
      opened st' = [] @ new \<and> new = ?new \<and> distinct new \<and>
      files st' ''blob=7dAT6XZ4zMeOu1qrvuWISSxuK87cW0G7oDNEsrUPJG4=.html'' \<noteq> None \<and>
      files st' ''blob=zu60Ge7QOFBAh0aMJVd9mNgKBu_N4bX26kaBUsv4wXI=.html'' \<noteq> None \<and>
      files st' ''other'' = None"
    using run out op d f k unfolding new
    by (intro exI [of _ r] exI [of _ st'] exI [of _ ?new]) (simp add: init_state_def)
  have p: "get_payload ex_image = PBytes ex_jpeg" by (simp add: ex_image_def)
  have dg: "digest_of ex_env ex_jpeg = ''uk8lvxa6S-a8fTJ2-v62f56zxd8EK8OkBeGvFbkh7tc=''"
    by code_simp
  have e: "fst (find_extension ex_env (effective_mime ex_env ex_image) (init_state ?fs)) = ''.jpg''"
  proof -
    have "effective_mime ex_env ex_image = ''image/jpeg''" by code_simp
    moreover have "lower ''image/jpeg'' = ''image/jpeg''" by code_simp
    ultimately show ?thesis
      by (simp add: find_extension_def common_types_init_def init_state_def)
  qed
  from T [THEN conjunct1, rule_format, of ex_image ex_jpeg "{}" "init_state ?fs"
      "render MappedRelative ex_env ex_mapped 1"]
  have 2: "map_option fst
     (DataDirectory_render_data ex_env (render MappedRelative ex_env ex_mapped 1)
        (Some ex_image) {} (init_state ?fs)) =
     Some (Inr (Some ''blob=uk8lvxa6S-a8fTJ2-v62f56zxd8EK8OkBeGvFbkh7tc=.jpg''))"
    using p by (simp add: dg e) (simp add: init_state_def)
  from ex_env_sha256_length 1 p 2 show ?thesis by blast
qed

end
